theory Spec2Isabelle
  imports Complex_Main "HOL-Library.AList"
begin

section \<open>Python values\<close>

text \<open>
  The agent of \<^verbatim>\<open>src/agent.py\<close> handles untyped Python data: the dictionaries of the
  provider's API (messages, content blocks, tool inputs). They are modelled as one
  datatype of values. A dictionary is an association list: Python dictionaries keep the
  insertion order, an assignment to an existing key replaces the value in place and an
  assignment to a new key appends it, which is what \<open>AList.update\<close> does. A float is
  modelled by the real number it stands for.
\<close>

datatype json =
    JNull
  | JBool bool
  | JInt int
  | JFloat real
  | JStr string
  | JList "json list"
  | JObj "(string \<times> json) list"

type_synonym pydict = "(string \<times> json) list"

text \<open>\<^verbatim>\<open>d.get(k)\<close>: the value, or \<^verbatim>\<open>None\<close> for a missing key.\<close>

definition dict_get :: "pydict \<Rightarrow> string \<Rightarrow> json" where
  "dict_get d k = (case map_of d k of None \<Rightarrow> JNull | Some v \<Rightarrow> v)"

text \<open>\<^verbatim>\<open>k in d\<close>.\<close>

definition has_key :: "pydict \<Rightarrow> string \<Rightarrow> bool" where
  "has_key d k = (map_of d k \<noteq> None)"

text \<open>Python's truth value of an object, as \<^verbatim>\<open>if x:\<close> and \<^verbatim>\<open>x or y\<close> read it.\<close>

fun truthy :: "json \<Rightarrow> bool" where
  "truthy JNull = False"
| "truthy (JBool b) = b"
| "truthy (JInt n) = (n \<noteq> 0)"
| "truthy (JFloat r) = (r \<noteq> 0)"
| "truthy (JStr s) = (s \<noteq> [])"
| "truthy (JList xs) = (xs \<noteq> [])"
| "truthy (JObj kvs) = (kvs \<noteq> [])"

datatype py_error =
    KeyError
  | IndexError
  | TypeError
  | ValueError
  | JSONDecodeError
  | RecursionError
  | AttributeError
  | UnboundLocalError
  | OverflowError

section \<open>History manager\<close>

subsection \<open>\<^verbatim>\<open>strip_old_images\<close>\<close>

text \<open>
  \<^verbatim>\<open>
  for msg in reversed(messages):
      content = msg.get("content")
      if not isinstance(content, list):
          continue
      for blk in reversed(content):
          if isinstance(blk, dict) and blk.get("type") == "image":
              src = blk.get("source") or blk
              if isinstance(src, dict) and "data" in src:
                  src["data"] = ""
  \<close>
  The function mutates the blocks in place and returns nothing; the model returns the
  log as it stands afterwards. The lists are walked backwards, and every element stays
  at its position.
\<close>

definition blank_data :: "pydict \<Rightarrow> pydict" where
  "blank_data d = AList.update ''data'' (JStr []) d"

definition strip_block :: "json \<Rightarrow> json" where
  "strip_block blk =
     (case blk of
        JObj b \<Rightarrow>
          if dict_get b ''type'' = JStr ''image'' then
            (if truthy (dict_get b ''source'') then
               (case dict_get b ''source'' of
                  JObj src \<Rightarrow>
                    if has_key src ''data''
                    then JObj (AList.update ''source'' (JObj (blank_data src)) b)
                    else blk
                | _ \<Rightarrow> blk)
             else if has_key b ''data'' then JObj (blank_data b) else blk)
          else blk
      | _ \<Rightarrow> blk)"

definition strip_message :: "pydict \<Rightarrow> pydict" where
  "strip_message msg =
     (case dict_get msg ''content'' of
        JList content \<Rightarrow>
          AList.update ''content'' (JList (rev (map strip_block (rev content)))) msg
      | _ \<Rightarrow> msg)"

definition strip_old_images :: "pydict list \<Rightarrow> pydict list" where
  "strip_old_images messages = rev (map strip_message (rev messages))"

subsection \<open>Truncation of the log\<close>

text \<open>
  \<^verbatim>\<open>messages[:] = [messages[0]] + messages[-60:]\<close>. The slice \<^verbatim>\<open>messages[-60:]\<close> is the
  last 60 elements, or the whole list when it has fewer; \<^verbatim>\<open>messages[0]\<close> raises
  IndexError on an empty list.
\<close>

definition last_window :: "nat \<Rightarrow> 'a list \<Rightarrow> 'a list" where
  "last_window n xs = drop (length xs - n) xs"

definition truncate_log :: "'a list \<Rightarrow> py_error + 'a list" where
  "truncate_log messages =
     (case messages of
        [] \<Rightarrow> Inl IndexError
      | m # _ \<Rightarrow> Inr (m # last_window 60 messages))"

section \<open>Stream decoder\<close>

text \<open>
  The events of the provider's stream, by their \<^verbatim>\<open>type\<close>. A start event carries the
  block \<^verbatim>\<open>ev.content_block.to_dict()\<close>, a \<^verbatim>\<open>tool_use\<close> event the dictionary
  \<^verbatim>\<open>ev.to_dict()\<close>; an event of any other type is skipped by the decoder.
\<close>

datatype delta =
    TextDelta string
  | InputJsonDelta string
  | OtherDelta string

datatype stream_event =
    ContentBlockStart int pydict
  | ContentBlockDelta int delta
  | ContentBlockStop int
  | ToolUse pydict
  | MessageStop
  | OtherEvent string

text \<open>
  The decoder appends each block to \<^verbatim>\<open>assistant_blocks\<close> and keeps references to the
  same object in \<^verbatim>\<open>open_blocks\<close> and \<^verbatim>\<open>tool_requests\<close>, so a later delta changes the
  block in all of them. The list \<open>assistant_blocks\<close> is the store of the model: a
  reference is a position in it. Every block of \<^verbatim>\<open>tool_requests\<close> is a block of
  \<^verbatim>\<open>assistant_blocks\<close>.
\<close>

record decoder =
  assistant_blocks :: "pydict list"
  tool_requests :: "nat list"
  open_blocks :: "int \<rightharpoonup> nat"
  partial_json :: "int \<rightharpoonup> string"

definition decoder_init :: decoder where
  "decoder_init =
     \<lparr>assistant_blocks = [], tool_requests = [], open_blocks = Map.empty,
      partial_json = Map.empty\<rparr>"

text \<open>\<^verbatim>\<open>blk.get("text", "") + ev.delta.text\<close>: a value that is not a string raises TypeError.\<close>

definition append_text :: "pydict \<Rightarrow> string \<Rightarrow> py_error + pydict" where
  "append_text blk t =
     (case map_of blk ''text'' of
        None \<Rightarrow> Inr (AList.update ''text'' (JStr t) blk)
      | Some (JStr s) \<Rightarrow> Inr (AList.update ''text'' (JStr (s @ t)) blk)
      | Some _ \<Rightarrow> Inl TypeError)"

text \<open>
  The parser \<^verbatim>\<open>json.loads\<close> of the standard library is a parameter: the value it
  returns, or the exception it raises. On a text that is no JSON document that is
  JSONDecodeError as a rule, but not always: the parser raises RecursionError on a text
  nested too deeply and a plain ValueError on an integer literal of too many digits.
\<close>

type_synonym parser = "string \<Rightarrow> py_error + json"

text \<open>
  One pass of the loop body for an event other than \<^verbatim>\<open>message_stop\<close>. A missing
  dictionary key in \<^verbatim>\<open>open_blocks[ev.index]\<close>, \<^verbatim>\<open>partial_json[ev.index]\<close> or
  \<^verbatim>\<open>blk["type"]\<close> raises KeyError. At \<^verbatim>\<open>content_block_stop\<close>,
  \<^verbatim>\<open>
  try:
      blk["input"] = json.loads(partial_json[ev.index])
  except json.JSONDecodeError:
      blk["input"] = {}
  \<close>
  catches JSONDecodeError and lets every other exception of the parser pass.
\<close>

definition set_input :: "decoder \<Rightarrow> nat \<Rightarrow> json \<Rightarrow> decoder" where
  "set_input st p inp =
     st\<lparr>assistant_blocks :=
          (assistant_blocks st)[p := AList.update ''input'' inp (assistant_blocks st ! p)],
        tool_requests := tool_requests st @ [p]\<rparr>"

definition on_event :: "parser \<Rightarrow> decoder \<Rightarrow> stream_event \<Rightarrow> py_error + decoder" where
  "on_event loads st ev =
     (case ev of
        ContentBlockStart idx blk \<Rightarrow>
          (let st1 = st\<lparr>open_blocks := (open_blocks st)(idx \<mapsto> length (assistant_blocks st)),
                         assistant_blocks := assistant_blocks st @ [blk]\<rparr>
           in case map_of blk ''type'' of
                None \<Rightarrow> Inl KeyError
              | Some ty \<Rightarrow>
                  if ty = JStr ''tool_use''
                  then Inr (st1\<lparr>partial_json := (partial_json st1)(idx \<mapsto> [])\<rparr>)
                  else Inr st1)
      | ContentBlockDelta idx d \<Rightarrow>
          (case open_blocks st idx of
             None \<Rightarrow> Inl KeyError
           | Some p \<Rightarrow>
               (case d of
                  TextDelta t \<Rightarrow>
                    (case append_text (assistant_blocks st ! p) t of
                       Inl e \<Rightarrow> Inl e
                     | Inr blk \<Rightarrow> Inr (st\<lparr>assistant_blocks := (assistant_blocks st)[p := blk]\<rparr>))
                | InputJsonDelta j \<Rightarrow>
                    (case partial_json st idx of
                       None \<Rightarrow> Inl KeyError
                     | Some s \<Rightarrow> Inr (st\<lparr>partial_json := (partial_json st)(idx \<mapsto> s @ j)\<rparr>))
                | OtherDelta _ \<Rightarrow> Inr st))
      | ContentBlockStop idx \<Rightarrow>
          (case open_blocks st idx of
             None \<Rightarrow> Inl KeyError
           | Some p \<Rightarrow>
               (case map_of (assistant_blocks st ! p) ''type'' of
                  None \<Rightarrow> Inl KeyError
                | Some ty \<Rightarrow>
                    if ty = JStr ''tool_use'' then
                      (case partial_json st idx of
                         None \<Rightarrow> Inl KeyError
                       | Some s \<Rightarrow>
                           (case loads s of
                              Inr v \<Rightarrow> Inr (set_input st p v)
                            | Inl e \<Rightarrow>
                                if e = JSONDecodeError then Inr (set_input st p (JObj []))
                                else Inl e))
                    else Inr st))
      | ToolUse tdict \<Rightarrow>
          Inr (st\<lparr>assistant_blocks := assistant_blocks st @ [tdict],
                  tool_requests := tool_requests st @ [length (assistant_blocks st)]\<rparr>)
      | MessageStop \<Rightarrow> Inr st
      | OtherEvent _ \<Rightarrow> Inr st)"

text \<open>The loop \<^verbatim>\<open>for ev in stream\<close>; \<^verbatim>\<open>message_stop\<close> leaves it.\<close>

fun feed :: "parser \<Rightarrow> decoder \<Rightarrow> stream_event list \<Rightarrow> py_error + decoder" where
  "feed loads st [] = Inr st"
| "feed loads st (ev # evs) =
     (if ev = MessageStop then Inr st
      else case on_event loads st ev of
             Inl e \<Rightarrow> Inl e
           | Inr st' \<Rightarrow> feed loads st' evs)"

definition collect_from_stream ::
  "parser \<Rightarrow> stream_event list \<Rightarrow> py_error + pydict list \<times> pydict list" where
  "collect_from_stream loads stream =
     (case feed loads decoder_init stream of
        Inl e \<Rightarrow> Inl e
      | Inr st \<Rightarrow>
          Inr (assistant_blocks st, map (\<lambda>p. assistant_blocks st ! p) (tool_requests st)))"

section \<open>Rate limiter\<close>

text \<open>
  \<^verbatim>\<open>
  if ts:
      reset = datetime.fromisoformat(ts.replace("Z", "+00:00"))
      wait = (reset - datetime.now(timezone.utc)).total_seconds() + fudge
  else:
      try:
          wait = float(headers.get("retry-after", "0"))
      except ValueError:
          wait = 0.0
  wait = max(0.0, wait + fudge)
  wait = math.ceil(wait * 1000) / 1000
  time.sleep(wait)
  \<close>
  A float is a real number, an infinity or NaN. The arithmetic on finite floats is the
  arithmetic of the reals, except that a result beyond the range of a float is an
  infinity: the overflow is modelled, the rounding of a result within the range is not.
\<close>

datatype pyfloat = Finite real | PosInf | NegInf | NaN

text \<open>The least magnitude that rounds to an infinity: \<open>2 ^ 1024 - 2 ^ 970\<close>.\<close>

definition float_overflow :: real where
  "float_overflow = 2 ^ 1024 - 2 ^ 970"

definition to_float :: "real \<Rightarrow> pyfloat" where
  "to_float x =
     (if float_overflow \<le> x then PosInf
      else if x \<le> - float_overflow then NegInf
      else Finite x)"

text \<open>\<^verbatim>\<open>x + fudge\<close> and \<^verbatim>\<open>x * 1000\<close> for a finite \<^verbatim>\<open>fudge\<close>.\<close>

fun float_add :: "pyfloat \<Rightarrow> real \<Rightarrow> pyfloat" where
  "float_add (Finite x) y = to_float (x + y)"
| "float_add z y = z"

fun float_times_1000 :: "pyfloat \<Rightarrow> pyfloat" where
  "float_times_1000 (Finite x) = to_float (x * 1000)"
| "float_times_1000 z = z"

text \<open>
  \<^verbatim>\<open>max(0.0, x)\<close> is \<^verbatim>\<open>x\<close> when \<^verbatim>\<open>x > 0.0\<close> and \<^verbatim>\<open>0.0\<close> otherwise, so it is \<^verbatim>\<open>0.0\<close> for NaN.
\<close>

fun max_zero :: "pyfloat \<Rightarrow> pyfloat" where
  "max_zero (Finite x) = Finite (max 0 x)"
| "max_zero PosInf = PosInf"
| "max_zero NegInf = Finite 0"
| "max_zero NaN = Finite 0"

text \<open>
  \<^verbatim>\<open>math.ceil(x) / 1000\<close>: \<^verbatim>\<open>math.ceil\<close> raises OverflowError on an infinity and
  ValueError on NaN.
\<close>

fun ceil_ms :: "pyfloat \<Rightarrow> py_error + real" where
  "ceil_ms (Finite x) = Inr (real_of_int \<lceil>x\<rceil> / 1000)"
| "ceil_ms PosInf = Inl OverflowError"
| "ceil_ms NegInf = Inl OverflowError"
| "ceil_ms NaN = Inl ValueError"

text \<open>
  The library functions are parameters: \<open>reset_seconds\<close> is the time of
  \<^verbatim>\<open>datetime.fromisoformat(s)\<close> in seconds since the epoch (\<open>Inl\<close> is the exception that
  parsing, or subtracting from an aware \<^verbatim>\<open>now\<close>, raises), \<open>now\<close> the time of
  \<^verbatim>\<open>datetime.now(timezone.utc)\<close> on the same scale, \<open>py_float\<close> is \<^verbatim>\<open>float(s)\<close> with \<open>None\<close>
  for its ValueError. The function returns nothing; the model returns the duration it
  passes to \<^verbatim>\<open>time.sleep\<close>.
\<close>

type_synonym headers = "(string \<times> string) list"

record clock =
  reset_seconds :: "string \<Rightarrow> py_error + real"
  now :: real
  py_float :: "string \<Rightarrow> pyfloat option"

text \<open>\<^verbatim>\<open>ts.replace("Z", "+00:00")\<close>.\<close>

definition replace_Z :: "string \<Rightarrow> string" where
  "replace_Z ts = concat (map (\<lambda>c. if c = CHR ''Z'' then ''+00:00'' else [c]) ts)"

text \<open>The last two assignments to \<^verbatim>\<open>wait\<close>.\<close>

definition round_up_ms :: "pyfloat \<Rightarrow> real \<Rightarrow> py_error + real" where
  "round_up_ms wait fudge = ceil_ms (float_times_1000 (max_zero (float_add wait fudge)))"

definition wait_until_itpm_reset ::
  "clock \<Rightarrow> headers \<Rightarrow> string option \<Rightarrow> real \<Rightarrow> py_error + real" where
  "wait_until_itpm_reset c hdrs ts fudge =
     (case (case ts of
              Some (t # ts') \<Rightarrow>
                (case reset_seconds c (replace_Z (t # ts')) of
                   Inl e \<Rightarrow> Inl e
                 | Inr reset \<Rightarrow> Inr (float_add (to_float (reset - now c)) fudge))
            | _ \<Rightarrow>
                Inr (case py_float c (case map_of hdrs ''retry-after'' of
                                         None \<Rightarrow> ''0'' | Some v \<Rightarrow> v) of
                       None \<Rightarrow> Finite 0
                     | Some w \<Rightarrow> w)) of
        Inl e \<Rightarrow> Inl e
      | Inr wait \<Rightarrow> round_up_ms wait fudge)"

section \<open>Action dispatcher\<close>

text \<open>
  The desktop automation library and the graph database are outside the repository.
  A call of the library is a value of \<open>gui_call\<close>, and the effector \<open>gui\<close> says how
  the call ends: \<open>Inl\<close> with the text \<^verbatim>\<open>str(e)\<close> of the exception it raises, or \<open>Inr\<close>
  with what it returns (for \<open>Screenshot\<close> the encoded image: the call stands for
  capturing, saving and encoding it). The settle delay \<^verbatim>\<open>time.sleep(0.2)\<close> after an
  action has no result and is left out.
\<close>

datatype gui_call =
    Screenshot
  | MoveTo "json list"
  | Click "(json \<times> json) option" string
  | DoubleClick "(json \<times> json) option"
  | Write string
  | Press string
  | Scroll json
  | HScroll json
  | Sleep json

datatype nav = Prev | Next | Curr

text \<open>
  \<open>graph_run q sid\<close> is \<^verbatim>\<open>graph.run(q, sid=...)\<close> for the query of \<open>q\<close>: the rows
  \<open>(id, description)\<close> it yields, or the text of the exception it raises.
\<close>

type_synonym graph = "nav \<Rightarrow> string \<Rightarrow> string + (string \<times> json) list"

text \<open>
  Builtins of Python whose text output the dispatcher passes on: \<^verbatim>\<open>str(n)\<close> and
  \<^verbatim>\<open>int(s)\<close> (\<open>Inl\<close> the text of its ValueError), the formatting of a dictionary in an
  f-string, and \<^verbatim>\<open>str(e)\<close> of an exception the interpreter raises.
\<close>

record builtins =
  py_str :: "int \<Rightarrow> string"
  py_int :: "string \<Rightarrow> string + int"
  py_repr :: "pydict \<Rightarrow> string"
  str_exc :: "py_error \<Rightarrow> string"

record effector =
  gui :: "gui_call \<Rightarrow> string + string"
  graph_db :: "graph option"

text \<open>The globals \<^verbatim>\<open>PROCESSSTEP\<close> and \<^verbatim>\<open>PROCESSSTEP_ID\<close>.\<close>

record globals =
  PROCESSSTEP :: int
  PROCESSSTEP_ID :: int

definition no_prev_step :: string where
  "no_prev_step = ''Es existiert kein vorheriger Schritt. Gehe zum letzten Schritt zur'' @ [CHR 0xFC] @ ''ck.''"

definition no_next_step :: string where
  "no_next_step = ''Es existiert kein nachfolgender Schritt. Gehe zum letzten Schritt zur'' @ [CHR 0xFC] @ ''ck.''"

definition no_curr_step :: string where
  "no_curr_step = ''Der aktuellen Schritt existiert nicht. Gehe zum letzten Schritt zur'' @ [CHR 0xFC] @ ''ck.''"

text \<open>
  The three queries differ in the query text and in what they return when no row
  comes back. \<^verbatim>\<open>graph.run\<close> on \<^verbatim>\<open>None\<close> raises AttributeError.
\<close>

definition first_row ::
  "builtins \<Rightarrow> graph option \<Rightarrow> nav \<Rightarrow> int \<Rightarrow> int \<times> json \<Rightarrow> string + int \<times> json" where
  "first_row bi g q step_id fallback =
     (case g of
        None \<Rightarrow> Inl (str_exc bi AttributeError)
      | Some run \<Rightarrow>
          (case run q (py_str bi step_id) of
             Inl msg \<Rightarrow> Inl msg
           | Inr [] \<Rightarrow> Inr fallback
           | Inr ((rid, description) # _) \<Rightarrow>
               (case py_int bi rid of
                  Inl msg \<Rightarrow> Inl msg
                | Inr n \<Rightarrow> Inr (n, description))))"

definition get_prev_step :: "builtins \<Rightarrow> graph option \<Rightarrow> int \<Rightarrow> string + int \<times> json" where
  "get_prev_step bi g step_id = first_row bi g Prev step_id (step_id - 1, JStr no_prev_step)"

definition get_next_step :: "builtins \<Rightarrow> graph option \<Rightarrow> int \<Rightarrow> string + int \<times> json" where
  "get_next_step bi g step_id = first_row bi g Next step_id (step_id + 1, JStr no_next_step)"

definition get_curr_step :: "builtins \<Rightarrow> graph option \<Rightarrow> int \<Rightarrow> string + int \<times> json" where
  "get_curr_step bi g step_id = first_row bi g Curr step_id (step_id, JStr no_curr_step)"

text \<open>\<^verbatim>\<open>x[i]\<close> for an integer \<open>i \<ge> 0\<close>. The keys of a decoded dictionary are strings.\<close>

fun subscript :: "json \<Rightarrow> nat \<Rightarrow> py_error + json" where
  "subscript (JList xs) i = (if i < length xs then Inr (xs ! i) else Inl IndexError)"
| "subscript (JStr s) i = (if i < length s then Inr (JStr [s ! i]) else Inl IndexError)"
| "subscript (JObj d) i = Inl KeyError"
| "subscript _ i = Inl TypeError"

text \<open>
  \<^verbatim>\<open>100 * x\<close> and \<^verbatim>\<open>-x\<close>. The product of a float is the product of the reals:
  neither its rounding nor its overflow is modelled. The result is the argument of a
  call of the desktop library and decides neither the counter nor the error flag.
\<close>

fun times100 :: "json \<Rightarrow> py_error + json" where
  "times100 (JInt n) = Inr (JInt (100 * n))"
| "times100 (JBool b) = Inr (JInt (if b then 100 else 0))"
| "times100 (JFloat r) = Inr (JFloat (100 * r))"
| "times100 (JStr s) = Inr (JStr (concat (replicate 100 s)))"
| "times100 (JList xs) = Inr (JList (concat (replicate 100 xs)))"
| "times100 _ = Inl TypeError"

fun negate :: "json \<Rightarrow> py_error + json" where
  "negate (JInt n) = Inr (JInt (- n))"
| "negate (JBool b) = Inr (JInt (if b then - 1 else 0))"
| "negate (JFloat r) = Inr (JFloat (- r))"
| "negate _ = Inl TypeError"

text \<open>The arguments of a click: \<^verbatim>\<open>coord[0], coord[1]\<close> when \<^verbatim>\<open>coord\<close> is true, none otherwise.\<close>

definition click_args :: "json \<Rightarrow> py_error + (json \<times> json) option" where
  "click_args coord =
     (if truthy coord then
        (case subscript coord 0 of
           Inl e \<Rightarrow> Inl e
         | Inr x \<Rightarrow> (case subscript coord 1 of Inl e \<Rightarrow> Inl e | Inr y \<Rightarrow> Inr (Some (x, y))))
      else Inr None)"

text \<open>The call a \<^verbatim>\<open>scroll\<close> action makes.\<close>

definition scroll_call :: "json \<Rightarrow> json \<Rightarrow> py_error + gui_call" where
  "scroll_call scroll_dir scroll_amt =
     (case times100 (if truthy scroll_amt then scroll_amt else JInt 0) of
        Inl e \<Rightarrow> Inl e
      | Inr amt \<Rightarrow>
          if scroll_dir = JStr ''up'' then Inr (Scroll amt)
          else if scroll_dir = JStr ''down'' then
            (case negate amt of Inl e \<Rightarrow> Inl e | Inr a \<Rightarrow> Inr (Scroll a))
          else if scroll_dir = JStr ''left'' then
            (case negate amt of Inl e \<Rightarrow> Inl e | Inr a \<Rightarrow> Inr (HScroll a))
          else Inr (HScroll amt))"

definition is_number :: "json \<Rightarrow> bool" where
  "is_number v = (case v of JInt _ \<Rightarrow> True | JFloat _ \<Rightarrow> True | JBool _ \<Rightarrow> True | _ \<Rightarrow> False)"

definition unknown_action :: string where
  "unknown_action = ''Unbekannte Aktion oder fehlende Parameter: ''"

type_synonym tool_result = "string \<times> json \<times> bool"

text \<open>
  An action that makes one call of the library, counts one step and returns the empty
  text. The counter is incremented after the call, so a call that raises leaves it.
\<close>

definition act :: "effector \<Rightarrow> globals \<Rightarrow> gui_call \<Rightarrow> string + globals \<times> tool_result" where
  "act eff g call =
     (case gui eff call of
        Inl msg \<Rightarrow> Inl msg
      | Inr _ \<Rightarrow> Inr (g\<lparr>PROCESSSTEP := PROCESSSTEP g + 1\<rparr>, ''text'', JStr [], False))"

definition navigate :: "globals \<Rightarrow> string + int \<times> json \<Rightarrow> string + globals \<times> tool_result" where
  "navigate g r =
     (case r of
        Inl msg \<Rightarrow> Inl msg
      | Inr (sid, description) \<Rightarrow> Inr (g\<lparr>PROCESSSTEP_ID := sid\<rparr>, ''text'', description, False))"

text \<open>The body of the \<^verbatim>\<open>try\<close>: \<open>Inl\<close> is the text of an exception raised in it.\<close>

definition try_tool ::
  "builtins \<Rightarrow> effector \<Rightarrow> globals \<Rightarrow> pydict \<Rightarrow> string + globals \<times> tool_result" where
  "try_tool bi eff g tool_input =
     (let action = dict_get tool_input ''action'';
          text = dict_get tool_input ''text'';
          coord = dict_get tool_input ''coordinate'';
          scroll_dir = dict_get tool_input ''scroll_direction'';
          scroll_amt = dict_get tool_input ''scroll_amount'';
          duration = dict_get tool_input ''duration''
      in
      if action = JStr ''screenshot'' then
        (case gui eff Screenshot of
           Inl msg \<Rightarrow> Inl msg
         | Inr encoded \<Rightarrow>
             Inr (g\<lparr>PROCESSSTEP := PROCESSSTEP g + 1\<rparr>, ''image'',
                  JObj [(''type'', JStr ''base64''), (''media_type'', JStr ''image/png''),
                        (''data'', JStr encoded)],
                  False))
      else if action = JStr ''mouse_move'' \<and> (case coord of JList _ \<Rightarrow> True | _ \<Rightarrow> False) then
        (case coord of JList xs \<Rightarrow> act eff g (MoveTo xs) | _ \<Rightarrow> Inl (str_exc bi TypeError))
      else if action = JStr ''left_click'' then
        (case click_args coord of
           Inl e \<Rightarrow> Inl (str_exc bi e)
         | Inr xy \<Rightarrow> act eff g (Click xy ''left''))
      else if action = JStr ''right_click'' then
        (case click_args coord of
           Inl e \<Rightarrow> Inl (str_exc bi e)
         | Inr xy \<Rightarrow> act eff g (Click xy ''right''))
      else if action = JStr ''double_click'' then
        (case click_args coord of
           Inl e \<Rightarrow> Inl (str_exc bi e)
         | Inr xy \<Rightarrow> act eff g (DoubleClick xy))
      else if action = JStr ''type'' \<and> (case text of JStr _ \<Rightarrow> True | _ \<Rightarrow> False) then
        (case text of JStr s \<Rightarrow> act eff g (Write s) | _ \<Rightarrow> Inl (str_exc bi TypeError))
      else if action = JStr ''key'' \<and> (case text of JStr _ \<Rightarrow> True | _ \<Rightarrow> False) then
        (case text of JStr s \<Rightarrow> act eff g (Press s) | _ \<Rightarrow> Inl (str_exc bi TypeError))
      else if action = JStr ''scroll'' \<and> truthy scroll_dir then
        (case scroll_call scroll_dir scroll_amt of
           Inl e \<Rightarrow> Inl (str_exc bi e)
         | Inr call \<Rightarrow> act eff g call)
      else if action = JStr ''wait'' \<and> is_number duration then
        act eff g (Sleep duration)
      else if action = JStr ''prev'' then
        navigate g (get_prev_step bi (graph_db eff) (PROCESSSTEP_ID g))
      else if action = JStr ''next'' then
        navigate g (get_next_step bi (graph_db eff) (PROCESSSTEP_ID g))
      else if action = JStr ''curr'' then
        navigate g (get_curr_step bi (graph_db eff) (PROCESSSTEP_ID g))
      else
        Inr (g\<lparr>PROCESSSTEP := PROCESSSTEP g + 1\<rparr>, ''text'',
             JStr (unknown_action @ py_repr bi tool_input), True))"

text \<open>
  \<^verbatim>\<open>except Exception as e: return "text", str(e), True\<close>: every exception of the body
  is caught, and the globals are as they were before the call.
\<close>

definition execute_computer_tool ::
  "builtins \<Rightarrow> effector \<Rightarrow> globals \<Rightarrow> pydict \<Rightarrow> globals \<times> tool_result" where
  "execute_computer_tool bi eff g tool_input =
     (case try_tool bi eff g tool_input of
        Inl msg \<Rightarrow> (g, ''text'', JStr msg, True)
      | Inr r \<Rightarrow> r)"

section \<open>Loop controller\<close>

text \<open>
  The provider is outside the program: the model is given the answers of the provider
  to the successive calls of \<^verbatim>\<open>client.beta.messages.create\<close>, each a rate-limit error
  with the headers of its response or a stream with the headers of its response. The
  list is finite; when it is used up before the run ends, the run is still waiting for
  the provider (\<open>Waiting\<close>). An operator's interrupt is not modelled.
\<close>

datatype response =
    RateLimitError headers
  | Stream headers "stream_event list"

text \<open>A local variable of the function is unbound until its first assignment.\<close>

datatype 'a local = Unbound | Bound 'a

datatype outcome =
    Return "int option"
  | Raise py_error
  | Waiting

text \<open>
  The world of a run: the builtins, the parser, the desktop and the graph at each
  dispatch (numbered from 0) and the clock at each rate-limit wait (numbered from 0).
\<close>

record world =
  w_builtins :: builtins
  w_loads :: parser
  w_effector :: "nat \<Rightarrow> effector"
  w_clock :: "nat \<Rightarrow> clock"

record run =
  messages :: "pydict list"
  counters :: globals
  TIME_TO_WAIT :: "string option local"
  slept :: "real list"
  dispatched :: nat

text \<open>
  \<^verbatim>\<open>
  while(True):
      try:
          stream = client.beta.messages.create(...)
          break
      except anthropic.RateLimitError as e:
          wait_until_itpm_reset(e.response.headers, TIME_TO_WAIT)
          continue
  \<close>
  \<^verbatim>\<open>TIME_TO_WAIT\<close> is assigned after a call that returned a stream, from the headers of
  that response; reading it before raises UnboundLocalError. The handler catches
  nothing else, so an exception of \<^verbatim>\<open>wait_until_itpm_reset\<close> leaves the loop too.
\<close>

datatype awaited =
    Got headers "stream_event list" "response list" "real list"
  | Failed py_error "real list"
  | Starved "real list"

fun await_provider ::
  "world \<Rightarrow> string option local \<Rightarrow> real list \<Rightarrow> response list \<Rightarrow> awaited" where
  "await_provider w ttw sl [] = Starved sl"
| "await_provider w ttw sl (Stream h evs # rest) = Got h evs rest sl"
| "await_provider w ttw sl (RateLimitError h # rest) =
     (case ttw of
        Unbound \<Rightarrow> Failed UnboundLocalError sl
      | Bound ts \<Rightarrow>
          (case wait_until_itpm_reset (w_clock w (length sl)) h ts (1 / 2) of
             Inl e \<Rightarrow> Failed e sl
           | Inr d \<Rightarrow> await_provider w ttw (sl @ [d]) rest))"

definition tool_result_block :: "json \<Rightarrow> tool_result \<Rightarrow> json" where
  "tool_result_block tool_use_id r =
     (case r of (flag, result, is_err) \<Rightarrow>
        JObj [(''type'', JStr ''tool_result''),
              (''tool_use_id'', tool_use_id),
              (''content'',
                 if flag = ''image''
                 then JList [JObj [(''type'', JStr ''image''), (''source'', result)]]
                 else result),
              (''is_error'', JBool is_err)])"

text \<open>
  \<^verbatim>\<open>
  for tc in tool_calls:
      flag, result, is_err = execute_computer_tool(tc["input"], graph_db)
      if flag == "image":
          strip_old_images(messages)
      tool_results.append({...  "tool_use_id": tc["id"], ...})
  \<close>
  \<^verbatim>\<open>flag\<close> keeps the value of the last pass when the loop is left. A tool call without
  \<^verbatim>\<open>input\<close> or \<^verbatim>\<open>id\<close> raises KeyError, an input that is no dictionary has no \<^verbatim>\<open>get\<close>
  (AttributeError). The tool calls are the objects that stand in the last message of
  the log, which \<^verbatim>\<open>strip_old_images\<close> mutates; it writes the field \<^verbatim>\<open>data\<close> of a block
  or of its \<^verbatim>\<open>source\<close> only, and the loop reads \<^verbatim>\<open>input\<close> and \<^verbatim>\<open>id\<close>, so the model
  passes the tool calls by value.
\<close>

fun dispatch ::
  "world \<Rightarrow> run \<Rightarrow> string local \<Rightarrow> json list \<Rightarrow> pydict list \<Rightarrow>
     (py_error + string local \<times> json list) \<times> run" where
  "dispatch w st flag tool_results [] = (Inr (flag, tool_results), st)"
| "dispatch w st flag tool_results (tc # tcs) =
     (case map_of tc ''input'' of
        None \<Rightarrow> (Inl KeyError, st)
      | Some (JObj tool_input) \<Rightarrow>
          (case execute_computer_tool (w_builtins w) (w_effector w (dispatched st))
                  (counters st) tool_input of
             (g, flag', result, is_err) \<Rightarrow>
               (let st1 = st\<lparr>counters := g, dispatched := Suc (dispatched st),
                              messages := (if flag' = ''image''
                                           then strip_old_images (messages st)
                                           else messages st)\<rparr>
                in case map_of tc ''id'' of
                     None \<Rightarrow> (Inl KeyError, st1)
                   | Some tid \<Rightarrow>
                       dispatch w st1 (Bound flag')
                         (tool_results @ [tool_result_block tid (flag', result, is_err)]) tcs))
      | Some _ \<Rightarrow> (Inl AttributeError, st))"

text \<open>
  The end of an iteration:
  \<^verbatim>\<open>
  messages.append({"role": "user", "content": tool_results})
  if flag == "image":
      messages[:] = [messages[0]] + messages[-60:]
  \<close>
\<close>

definition user_message :: "json list \<Rightarrow> pydict" where
  "user_message tool_results = [(''role'', JStr ''user''), (''content'', JList tool_results)]"

definition end_of_turn :: "string local \<Rightarrow> pydict list \<Rightarrow> json list \<Rightarrow> py_error + pydict list" where
  "end_of_turn flag msgs tool_results =
     (let msgs' = msgs @ [user_message tool_results]
      in case flag of
           Unbound \<Rightarrow> Inl UnboundLocalError
         | Bound f \<Rightarrow> if f = ''image'' then truncate_log msgs' else Inr msgs')"

text \<open>
  The iterations \<^verbatim>\<open>for i in range(1, max_iterations + 1)\<close>: \<open>n\<close> of them are left and
  the next has number \<open>i\<close>. The function returns \<open>i\<close> from the iteration that decodes no
  tool call, and \<^verbatim>\<open>None\<close> after the last iteration.
\<close>

fun iterations :: "world \<Rightarrow> nat \<Rightarrow> int \<Rightarrow> run \<Rightarrow> response list \<Rightarrow> outcome \<times> run" where
  "iterations w 0 i st rs = (Return None, st)"
| "iterations w (Suc n) i st rs =
     (case await_provider w (TIME_TO_WAIT st) (slept st) rs of
        Starved sl \<Rightarrow> (Waiting, st\<lparr>slept := sl\<rparr>)
      | Failed e sl \<Rightarrow> (Raise e, st\<lparr>slept := sl\<rparr>)
      | Got h evs rest sl \<Rightarrow>
          (let st1 = st\<lparr>slept := sl,
                         TIME_TO_WAIT :=
                           Bound (map_of h ''anthropic-ratelimit-input-tokens-reset'')\<rparr>
           in case collect_from_stream (w_loads w) evs of
                Inl e \<Rightarrow> (Raise e, st1)
              | Inr (blocks, tool_calls) \<Rightarrow>
                  (let st2 = st1\<lparr>messages := messages st1 @
                                  [[(''role'', JStr ''assistant''),
                                    (''content'', JList (map JObj blocks))]]\<rparr>
                   in if tool_calls = [] then (Return (Some i), st2)
                      else
                        (case dispatch w st2 Unbound [] tool_calls of
                           (Inl e, st3) \<Rightarrow> (Raise e, st3)
                         | (Inr (flag, tool_results), st3) \<Rightarrow>
                             (case end_of_turn flag (messages st3) tool_results of
                                Inl e \<Rightarrow> (Raise e, st3)
                              | Inr msgs \<Rightarrow>
                                  iterations w n (i + 1) (st3\<lparr>messages := msgs\<rparr>) rest)))))"

definition run_agent_loop ::
  "world \<Rightarrow> globals \<Rightarrow> json \<Rightarrow> int \<Rightarrow> response list \<Rightarrow> outcome \<times> run" where
  "run_agent_loop w g user_prompt max_iterations rs =
     iterations w (nat max_iterations) 1
       \<lparr>messages = [[(''role'', JStr ''user''), (''content'', user_prompt)]],
        counters = g, TIME_TO_WAIT = Unbound, slept = [], dispatched = 0\<rparr>
       rs"

section \<open>Predicates of the specification\<close>

text \<open>
  A dictionary \<open>d'\<close> differs from \<open>d\<close> in the field \<open>k\<close> only: the same keys in the same
  order, and the same value under every other key.
\<close>

definition only_field :: "string \<Rightarrow> pydict \<Rightarrow> pydict \<Rightarrow> bool" where
  "only_field k d d' = list_all2 (\<lambda>a b. fst a = fst b \<and> (fst a \<noteq> k \<longrightarrow> snd a = snd b)) d d'"

definition blanked :: "pydict \<Rightarrow> pydict \<Rightarrow> bool" where
  "blanked d d' = (only_field ''data'' d d' \<and> dict_get d' ''data'' = JStr [])"

text \<open>
  What \<^verbatim>\<open>strip_old_images\<close> may do to a block: nothing, or, in a block of type
  \<^verbatim>\<open>image\<close>, blank one field \<^verbatim>\<open>data\<close>. Which one is fixed by the block: when its
  \<^verbatim>\<open>source\<close> is true, the \<^verbatim>\<open>data\<close> that this source, a dictionary, holds, and nothing
  else of the block; when the block has no true \<^verbatim>\<open>source\<close>, the \<^verbatim>\<open>data\<close> that the block
  itself holds.
\<close>

definition block_frame :: "json \<Rightarrow> json \<Rightarrow> bool" where
  "block_frame b b' =
     (b' = b \<or>
      (case (b, b') of
         (JObj d, JObj d') \<Rightarrow>
           dict_get d ''type'' = JStr ''image'' \<and>
           (if truthy (dict_get d ''source'') then
              only_field ''source'' d d' \<and>
              (case (dict_get d ''source'', dict_get d' ''source'') of
                 (JObj s, JObj s') \<Rightarrow> has_key s ''data'' \<and> blanked s s'
               | _ \<Rightarrow> False)
            else has_key d ''data'' \<and> blanked d d')
       | _ \<Rightarrow> False))"

text \<open>And to a message: nothing, or that to the blocks of its \<^verbatim>\<open>content\<close>, one by one.\<close>

definition message_frame :: "pydict \<Rightarrow> pydict \<Rightarrow> bool" where
  "message_frame m m' =
     (m' = m \<or>
      (only_field ''content'' m m' \<and>
       (case (dict_get m ''content'', dict_get m' ''content'') of
          (JList c, JList c') \<Rightarrow> list_all2 block_frame c c'
        | _ \<Rightarrow> False)))"

text \<open>
  The order of a well-formed stream, index by index: the start of a block comes before
  its deltas, which come before its stop, and a block is started once and stopped at
  most once; \<^verbatim>\<open>message_stop\<close> is the last event.
\<close>

datatype blk_status = Unopened | Open | Closed

definition text_of :: "pydict \<Rightarrow> string" where
  "text_of blk = (case map_of blk ''text'' of Some (JStr s) \<Rightarrow> s | _ \<Rightarrow> [])"

definition wf_step :: "(int \<Rightarrow> blk_status) \<Rightarrow> stream_event \<Rightarrow> (int \<Rightarrow> blk_status) option" where
  "wf_step s ev =
     (case ev of
        ContentBlockStart i b \<Rightarrow> if s i = Unopened then Some (s(i := Open)) else None
      | ContentBlockDelta i d \<Rightarrow> if s i = Open then Some s else None
      | ContentBlockStop i \<Rightarrow> if s i = Open then Some (s(i := Closed)) else None
      | _ \<Rightarrow> Some s)"

fun wf_stream :: "(int \<Rightarrow> blk_status) \<Rightarrow> stream_event list \<Rightarrow> bool" where
  "wf_stream s [] = True"
| "wf_stream s (ev # evs) =
     (if ev = MessageStop then evs = []
      else case wf_step s ev of None \<Rightarrow> False | Some s' \<Rightarrow> wf_stream s' evs)"

text \<open>
  The \<^verbatim>\<open>text_delta\<close> fragments delivered for an index, and the position of the block of
  an index in \<^verbatim>\<open>assistant_blocks\<close>: the number of blocks appended before its start.
\<close>

definition fragment :: "int \<Rightarrow> stream_event \<Rightarrow> string" where
  "fragment i ev = (case ev of ContentBlockDelta j (TextDelta t) \<Rightarrow> if j = i then t else [] | _ \<Rightarrow> [])"

definition fragments :: "int \<Rightarrow> stream_event list \<Rightarrow> string" where
  "fragments i evs = concat (map (fragment i) evs)"

definition creates :: "stream_event \<Rightarrow> nat" where
  "creates ev = (case ev of ContentBlockStart _ _ \<Rightarrow> 1 | ToolUse _ \<Rightarrow> 1 | _ \<Rightarrow> 0)"

definition is_start :: "int \<Rightarrow> stream_event \<Rightarrow> bool" where
  "is_start i ev = (case ev of ContentBlockStart j _ \<Rightarrow> j = i | _ \<Rightarrow> False)"

fun block_pos :: "int \<Rightarrow> stream_event list \<Rightarrow> nat" where
  "block_pos i [] = 0"
| "block_pos i (ev # evs) = (if is_start i ev then 0 else creates ev + block_pos i evs)"

text \<open>
  The invariant that relates the decoder's state to the state of the protocol: an
  index that is not started is no key of \<^verbatim>\<open>open_blocks\<close>, every reference is a position
  of \<open>assistant_blocks\<close>, and two indices never share a block.
\<close>

definition tracks :: "(int \<Rightarrow> blk_status) \<Rightarrow> decoder \<Rightarrow> bool" where
  "tracks s st \<longleftrightarrow>
     (\<forall>i. s i = Unopened \<longrightarrow> open_blocks st i = None) \<and>
     (\<forall>i p. open_blocks st i = Some p \<longrightarrow> p < length (assistant_blocks st)) \<and>
     (\<forall>i j p. open_blocks st i = Some p \<longrightarrow> open_blocks st j = Some p \<longrightarrow> i = j)"

text \<open>Every reference the decoder holds is a position of \<open>assistant_blocks\<close>.\<close>

definition refs_ok :: "decoder \<Rightarrow> bool" where
  "refs_ok st \<longleftrightarrow>
     (\<forall>i p. open_blocks st i = Some p \<longrightarrow> p < length (assistant_blocks st)) \<and>
     (\<forall>p \<in> set (tool_requests st). p < length (assistant_blocks st))"

definition refers_to :: "int \<Rightarrow> stream_event \<Rightarrow> bool" where
  "refers_to i ev =
     (case ev of ContentBlockDelta j _ \<Rightarrow> j = i | ContentBlockStop j \<Rightarrow> j = i | _ \<Rightarrow> False)"

text \<open>
  The \<^verbatim>\<open>input_json_delta\<close> fragments delivered for an index, and the number of blocks
  that a list of events appends to \<^verbatim>\<open>assistant_blocks\<close>.
\<close>

definition json_fragment :: "int \<Rightarrow> stream_event \<Rightarrow> string" where
  "json_fragment i ev =
     (case ev of ContentBlockDelta j (InputJsonDelta t) \<Rightarrow> if j = i then t else [] | _ \<Rightarrow> [])"

definition json_fragments :: "int \<Rightarrow> stream_event list \<Rightarrow> string" where
  "json_fragments i evs = concat (map (json_fragment i) evs)"

definition blocks_created :: "stream_event list \<Rightarrow> nat" where
  "blocks_created evs = sum_list (map creates evs)"

text \<open>
  The kinds of action the dispatcher tells apart: an action on the desktop that carries
  its required arguments, a navigation in the process documentation, and everything
  else (an action that is not recognised, or lacks a required argument).
\<close>

datatype action_kind = Desktop | Navigation | Invalid

definition action_kind :: "pydict \<Rightarrow> action_kind" where
  "action_kind tool_input =
     (let action = dict_get tool_input ''action'' in
      if action = JStr ''screenshot'' \<or> action = JStr ''left_click'' \<or>
         action = JStr ''right_click'' \<or> action = JStr ''double_click'' then Desktop
      else if action = JStr ''mouse_move'' then
        (case dict_get tool_input ''coordinate'' of JList _ \<Rightarrow> Desktop | _ \<Rightarrow> Invalid)
      else if action = JStr ''type'' \<or> action = JStr ''key'' then
        (case dict_get tool_input ''text'' of JStr _ \<Rightarrow> Desktop | _ \<Rightarrow> Invalid)
      else if action = JStr ''scroll'' then
        (if truthy (dict_get tool_input ''scroll_direction'') then Desktop else Invalid)
      else if action = JStr ''wait'' then
        (if is_number (dict_get tool_input ''duration'') then Desktop else Invalid)
      else if action = JStr ''prev'' \<or> action = JStr ''next'' \<or> action = JStr ''curr''
      then Navigation
      else Invalid)"

text \<open>
  The arguments of a desktop action evaluate: the coordinate of a click, when it is
  given, has two components, and the amount of a scroll can be scaled (and negated,
  for the directions that need it).
\<close>

definition arguments_ok :: "pydict \<Rightarrow> bool" where
  "arguments_ok tool_input =
     (let action = dict_get tool_input ''action'' in
      if action = JStr ''left_click'' \<or> action = JStr ''right_click'' \<or>
         action = JStr ''double_click''
      then \<not> isl (click_args (dict_get tool_input ''coordinate''))
      else if action = JStr ''scroll''
      then \<not> isl (scroll_call (dict_get tool_input ''scroll_direction'')
                    (dict_get tool_input ''scroll_amount''))
      else True)"

definition is_error :: "globals \<times> tool_result \<Rightarrow> bool" where
  "is_error r = snd (snd (snd r))"

text \<open>
  An example world: every call of the desktop library succeeds, the graph has
  no step, and the clock stands at 2025-07-25T12:00:00Z.
\<close>

definition example_builtins :: builtins where
  "example_builtins =
     \<lparr>py_str = (\<lambda>n. if n = 1 then ''1'' else ''0''),
      py_int = (\<lambda>s. Inl ''invalid literal for int()''),
      py_repr =
        (\<lambda>d. if d = [(''action'', JStr ''fly'')] then ''{'action': 'fly'}''
             else if d = [(''action'', JStr ''type'')] then ''{'action': 'type'}''
             else ''{}''),
      str_exc = (\<lambda>e. ''error'')\<rparr>"

definition example_effector :: effector where
  "example_effector =
     \<lparr>gui = (\<lambda>call. case call of Screenshot \<Rightarrow> Inr ''iVBOR'' | _ \<Rightarrow> Inr []),
      graph_db = Some (\<lambda>q sid. Inr [])\<rparr>"

definition example_clock :: clock where
  "example_clock =
     \<lparr>reset_seconds =
        (\<lambda>s. if s = ''2025-07-25T12:00:10+00:00'' then Inr 1753444810 else Inl ValueError),
      now = 1753444800,
      py_float = (\<lambda>s. if s = ''0'' then Some (Finite 0) else None)\<rparr>"

definition quoted :: "string \<Rightarrow> string" where
  "quoted s = [CHR 0x22] @ s @ [CHR 0x22]"

definition action_json :: "string \<Rightarrow> string" where
  "action_json a = ''{'' @ quoted ''action'' @ '': '' @ quoted a @ ''}''"

text \<open>
  A text of a thousand opening brackets: no JSON document, and nested too deeply for the
  parser, which raises RecursionError on it.
\<close>

definition deep_nesting :: string where
  "deep_nesting = replicate 1000 (CHR ''['')"

text \<open>What \<^verbatim>\<open>json.loads\<close> does on the texts of the examples.\<close>

definition example_loads :: parser where
  "example_loads s =
     (if s = action_json ''screenshot'' then Inr (JObj [(''action'', JStr ''screenshot'')])
      else if s = action_json ''left_click'' then Inr (JObj [(''action'', JStr ''left_click'')])
      else if s = deep_nesting then Inl RecursionError
      else Inl JSONDecodeError)"

definition deep_input_stream :: "stream_event list" where
  "deep_input_stream =
     [ContentBlockStart 0
        [(''type'', JStr ''tool_use''), (''id'', JStr ''toolu_1''), (''name'', JStr ''computer''),
         (''input'', JObj [])],
      ContentBlockDelta 0 (InputJsonDelta deep_nesting),
      ContentBlockStop 0,
      MessageStop]"

definition example_world :: world where
  "example_world =
     \<lparr>w_builtins = example_builtins, w_loads = example_loads,
      w_effector = (\<lambda>n. example_effector), w_clock = (\<lambda>n. example_clock)\<rparr>"

definition tool_stub :: "string \<Rightarrow> pydict" where
  "tool_stub tid =
     [(''type'', JStr ''tool_use''), (''id'', JStr tid), (''name'', JStr ''computer''),
      (''input'', JObj [])]"

definition image_then_click :: "stream_event list" where
  "image_then_click =
     [ContentBlockStart 0 (tool_stub ''toolu_1''),
      ContentBlockDelta 0 (InputJsonDelta (action_json ''screenshot'')),
      ContentBlockStop 0,
      ContentBlockStart 1 (tool_stub ''toolu_2''),
      ContentBlockDelta 1 (InputJsonDelta (action_json ''left_click'')),
      ContentBlockStop 1,
      MessageStop]"

definition scroll_down_3 :: pydict where
  "scroll_down_3 =
     [(''action'', JStr ''scroll''), (''scroll_direction'', JStr ''down''),
      (''scroll_amount'', JInt 3)]"

text \<open>An example stream.\<close>

definition hello_stream :: "stream_event list" where
  "hello_stream =
     [OtherEvent ''message_start'',
      ContentBlockStart 0 [(''type'', JStr ''text''), (''text'', JStr [])],
      ContentBlockDelta 0 (TextDelta ''Hel''),
      ContentBlockDelta 0 (TextDelta ''lo''),
      ContentBlockStop 0,
      MessageStop]"

section \<open>Properties of the history manager\<close>

lemma map_of_blank_data:
  "map_of (blank_data d) = (map_of d)(''data'' \<mapsto> JStr [])"
  by (simp add: blank_data_def update_conv')

lemma dict_get_update_same: "dict_get (AList.update k v d) k = v"
  by (simp add: dict_get_def update_conv')

lemma dict_get_update_other: "k' \<noteq> k \<Longrightarrow> dict_get (AList.update k v d) k' = dict_get d k'"
  by (simp add: dict_get_def update_conv')

lemma has_key_blank_data: "has_key (blank_data d) ''data''"
  by (simp add: has_key_def map_of_blank_data)

lemma blank_data_idem: "blank_data (blank_data d) = blank_data d"
  by (simp add: blank_data_def)

lemma has_key_nonempty: "has_key d k \<Longrightarrow> d \<noteq> []"
  by (auto simp: has_key_def)

lemma strip_block_idem: "strip_block (strip_block blk) = strip_block blk"
proof (cases blk)
  case (JObj b)
  show ?thesis
  proof (cases "dict_get b ''type'' = JStr ''image''")
    case False
    with JObj show ?thesis by (simp add: strip_block_def)
  next
    case img: True
    show ?thesis
    proof (cases "truthy (dict_get b ''source'')")
      case False
      with JObj img show ?thesis
        by (simp add: strip_block_def blank_data_def dict_get_update_other
            has_key_blank_data [unfolded blank_data_def])
    next
      case tr: True
      show ?thesis
      proof (cases "dict_get b ''source''")
        case (JObj src)
        show ?thesis
        proof (cases "has_key src ''data''")
          case True
          have ne: "blank_data src \<noteq> []"
            using has_key_blank_data has_key_nonempty by blast
          from True \<open>blk = JObj b\<close> img tr JObj ne show ?thesis
            by (simp add: strip_block_def dict_get_update_other dict_get_update_same
                has_key_blank_data blank_data_idem)
        next
          case False
          with \<open>blk = JObj b\<close> img tr JObj show ?thesis
            by (simp add: strip_block_def)
        qed
      qed (use \<open>blk = JObj b\<close> img tr in \<open>simp_all add: strip_block_def\<close>)
    qed
  qed
qed (simp_all add: strip_block_def)

lemma strip_message_idem: "strip_message (strip_message msg) = strip_message msg"
proof (cases "dict_get msg ''content''")
  case (JList content)
  have twice: "map (strip_block \<circ> strip_block) content = map strip_block content"
    by (simp add: strip_block_idem)
  from JList show ?thesis
    by (simp add: strip_message_def dict_get_update_same rev_map twice)
qed (simp_all add: strip_message_def)

text \<open>
  C7. \<^verbatim>\<open>strip_old_images\<close> is idempotent: applied twice in succession to a message log
  it yields the same log as applied once.
\<close>

theorem strip_old_images_idempotent:
  "strip_old_images (strip_old_images msgs) = strip_old_images msgs"
  by (simp add: strip_old_images_def rev_map strip_message_idem)

lemma only_field_refl: "only_field k d d"
  by (simp add: only_field_def list_all2_same)

lemma only_field_update: "has_key d k \<Longrightarrow> only_field k d (AList.update k v d)"
proof (induction d)
  case Nil
  then show ?case by (simp add: has_key_def)
next
  case (Cons a d)
  obtain k' v' where a: "a = (k', v')" by (cases a)
  show ?case
  proof (cases "k' = k")
    case True
    with a show ?thesis
      using only_field_refl [of k d] by (simp add: only_field_def)
  next
    case False
    with Cons.prems a have "has_key d k" by (simp add: has_key_def)
    with Cons.IH False a show ?thesis by (simp add: only_field_def)
  qed
qed

lemma blanked_blank_data: "has_key d ''data'' \<Longrightarrow> blanked d (blank_data d)"
  by (simp add: blanked_def blank_data_def only_field_update dict_get_update_same)

lemma has_key_of_get: "dict_get d k \<noteq> JNull \<Longrightarrow> has_key d k"
  by (auto simp: dict_get_def has_key_def split: option.splits)

lemma block_frame_strip: "block_frame b (strip_block b)"
proof (cases b)
  case (JObj d)
  show ?thesis
  proof (cases "dict_get d ''type'' = JStr ''image''")
    case False
    with JObj show ?thesis by (simp add: block_frame_def strip_block_def)
  next
    case img: True
    show ?thesis
    proof (cases "truthy (dict_get d ''source'')")
      case False
      with JObj img show ?thesis
        by (simp add: block_frame_def strip_block_def blanked_blank_data)
    next
      case tr: True
      show ?thesis
      proof (cases "dict_get d ''source''")
        case src: (JObj s)
        then have "has_key d ''source''" by (simp add: has_key_of_get)
        with JObj img tr src show ?thesis
          by (simp add: block_frame_def strip_block_def only_field_update
              dict_get_update_same blanked_blank_data)
      qed (use JObj img tr in \<open>simp_all add: block_frame_def strip_block_def\<close>)
    qed
  qed
qed (simp_all add: block_frame_def strip_block_def)

lemma message_frame_strip: "message_frame m (strip_message m)"
proof (cases "dict_get m ''content''")
  case (JList c)
  then have "has_key m ''content''" by (simp add: has_key_of_get)
  moreover have "list_all2 block_frame c (map strip_block c)"
    by (simp add: list_all2_map2 list_all2_same block_frame_strip)
  ultimately show ?thesis using JList
    by (simp add: message_frame_def strip_message_def rev_map only_field_update
        dict_get_update_same)
qed (simp_all add: message_frame_def strip_message_def)

text \<open>
  C10, as amended. \<^verbatim>\<open>strip_old_images\<close> keeps the messages, their fields and their
  blocks in number and order. A message is unchanged or differs in its \<^verbatim>\<open>content\<close>
  only, block by block; a block is unchanged or is a block of type \<^verbatim>\<open>image\<close> in which
  only one field \<^verbatim>\<open>data\<close> was set to the empty string: when the \<^verbatim>\<open>source\<close> of the block
  is true, the \<^verbatim>\<open>data\<close> that this source, a dictionary, holds; when the block has no
  true \<^verbatim>\<open>source\<close>, the \<^verbatim>\<open>data\<close> that the block itself holds.
\<close>

theorem strip_old_images_frame:
  "list_all2 message_frame msgs (strip_old_images msgs)"
  by (simp add: strip_old_images_def rev_map list_all2_map2 list_all2_same message_frame_strip)

theorem strip_old_images_frame_witness:
  "message_frame
     [(''role'', JStr ''user''),
      (''content'', JList [JObj [(''type'', JStr ''image''),
                                 (''source'', JObj [(''type'', JStr ''base64''),
                                                    (''data'', JStr ''iVBOR'')])],
                           JObj [(''type'', JStr ''text''), (''text'', JStr ''hello'')],
                           JObj [(''type'', JStr ''image''), (''data'', JStr ''R0lGO'')]])]
     [(''role'', JStr ''user''),
      (''content'', JList [JObj [(''type'', JStr ''image''),
                                 (''source'', JObj [(''type'', JStr ''base64''),
                                                    (''data'', JStr [])])],
                           JObj [(''type'', JStr ''text''), (''text'', JStr ''hello'')],
                           JObj [(''type'', JStr ''image''), (''data'', JStr [])]])]"
  using strip_old_images_frame
    [of "[[(''role'', JStr ''user''),
           (''content'', JList [JObj [(''type'', JStr ''image''),
                                      (''source'', JObj [(''type'', JStr ''base64''),
                                                         (''data'', JStr ''iVBOR'')])],
                                JObj [(''type'', JStr ''text''), (''text'', JStr ''hello'')],
                                JObj [(''type'', JStr ''image''), (''data'', JStr ''R0lGO'')]])]]"]
  by (simp add: strip_old_images_def strip_message_def strip_block_def dict_get_def
      has_key_def blank_data_def)

text \<open>
  The frame is no wider than that: in an image block with a true source it does not
  admit the blanking of the block's own \<^verbatim>\<open>data\<close>, and in a block of another type it
  admits no change.
\<close>

lemma block_frame_rejects_own_data_beside_source:
  "\<not> block_frame
      (JObj [(''type'', JStr ''image''), (''data'', JStr ''R0lGO''),
             (''source'', JObj [(''data'', JStr ''iVBOR'')])])
      (JObj [(''type'', JStr ''image''), (''data'', JStr []),
             (''source'', JObj [(''data'', JStr ''iVBOR'')])])"
  by (simp add: block_frame_def only_field_def blanked_def dict_get_def has_key_def)

lemma block_frame_rejects_other_types:
  "\<not> block_frame
      (JObj [(''type'', JStr ''tool_result''), (''data'', JStr ''R0lGO'')])
      (JObj [(''type'', JStr ''tool_result''), (''data'', JStr [])])"
  by (simp add: block_frame_def dict_get_def)

text \<open>
  The claim as stated fails on an image block that carries its \<^verbatim>\<open>data\<close> itself and has
  no \<^verbatim>\<open>source\<close>: the field that is blanked is not inside a source.
\<close>

theorem strip_old_images_blanks_own_data:
  "strip_old_images
     [[(''role'', JStr ''user''),
       (''content'', JList [JObj [(''type'', JStr ''image''), (''data'', JStr ''iVBOR'')]])]]
   = [[(''role'', JStr ''user''),
       (''content'', JList [JObj [(''type'', JStr ''image''), (''data'', JStr [])]])]]"
  by (simp add: strip_old_images_def strip_message_def strip_block_def dict_get_def
      has_key_def blank_data_def)

section \<open>Properties of the truncation\<close>

text \<open>
  C9. When the iteration ends with the flag \<^verbatim>\<open>image\<close>, the log becomes the first message
  of the log as it stood before the truncation (the tool results appended), followed by
  its last 60 messages. When that log has at most 60 messages, the result is the first
  message followed by the whole log: the first message stands at positions 0 and 1, and
  the log is longer by one.
\<close>

theorem truncation_keeps_first_and_window:
  fixes msgs :: "pydict list" and tool_results :: "json list"
  defines "before \<equiv> msgs @ [user_message tool_results]"
  shows "end_of_turn (Bound ''image'') msgs tool_results =
           Inr (before ! 0 # drop (length before - 60) before)
         \<and> (length before \<le> 60 \<longrightarrow>
              (\<exists>after. end_of_turn (Bound ''image'') msgs tool_results = Inr after
                 \<and> after = before ! 0 # before
                 \<and> after ! 0 = before ! 0 \<and> after ! 1 = before ! 0
                 \<and> length after = length before + 1))"
  unfolding before_def
  by (cases msgs) (simp_all add: end_of_turn_def truncate_log_def last_window_def)

theorem truncation_keeps_first_and_window_witness:
  "end_of_turn (Bound ''image'') [[(''role'', JStr ''user''), (''content'', JStr ''go'')]] []
     = Inr [[(''role'', JStr ''user''), (''content'', JStr ''go'')],
            [(''role'', JStr ''user''), (''content'', JStr ''go'')],
            user_message []]"
  using truncation_keeps_first_and_window
    [of "[[(''role'', JStr ''user''), (''content'', JStr ''go'')]]" "[]"]
  by simp

section \<open>Properties of the stream decoder\<close>

lemma on_event_open_blocks:
  "on_event loads st ev = Inr st' \<Longrightarrow> \<not> is_start i ev \<Longrightarrow> open_blocks st' i = open_blocks st i"
  by (cases ev)
    (auto simp: on_event_def set_input_def is_start_def Let_def
      split: option.splits if_splits delta.splits sum.splits)

lemma on_event_length:
  "on_event loads st ev = Inr st' \<Longrightarrow>
   length (assistant_blocks st') = length (assistant_blocks st) + creates ev"
  by (cases ev)
    (auto simp: on_event_def set_input_def creates_def Let_def
      split: option.splits if_splits delta.splits sum.splits)

lemma on_event_start:
  "on_event loads st (ContentBlockStart i b) = Inr st' \<Longrightarrow>
   open_blocks st' = (open_blocks st)(i \<mapsto> length (assistant_blocks st)) \<and>
   assistant_blocks st' = assistant_blocks st @ [b]"
  by (auto simp: on_event_def Let_def split: option.splits if_splits)

lemma feed_append:
  "MessageStop \<notin> set pre \<Longrightarrow>
   feed loads st (pre @ rest) =
     (case feed loads st pre of Inl e \<Rightarrow> Inl e | Inr st' \<Rightarrow> feed loads st' rest)"
  by (induction pre arbitrary: st) (auto split: sum.splits)

lemma feed_open_blocks:
  "feed loads st pre = Inr st' \<Longrightarrow> \<forall>ev \<in> set pre. \<not> is_start i ev \<Longrightarrow>
   open_blocks st' i = open_blocks st i"
proof (induction pre arbitrary: st)
  case Nil
  then show ?case by simp
next
  case (Cons ev pre)
  show ?case
  proof (cases "ev = MessageStop")
    case True
    with Cons.prems show ?thesis by simp
  next
    case False
    with Cons.prems obtain st1 where st1: "on_event loads st ev = Inr st1" "feed loads st1 pre = Inr st'"
      by (auto split: sum.splits)
    from Cons.IH [OF st1(2)] Cons.prems(2) on_event_open_blocks [OF st1(1), of i]
    show ?thesis by simp
  qed
qed

lemma tracks_ref:
  "tracks s st \<Longrightarrow> open_blocks st i = Some p \<Longrightarrow> p < length (assistant_blocks st)"
  by (simp add: tracks_def)

lemma tracks_inj:
  "tracks s st \<Longrightarrow> open_blocks st i = Some p \<Longrightarrow> open_blocks st j = Some p \<Longrightarrow> i = j"
  unfolding tracks_def by blast

lemma tracks_unopened: "tracks s st \<Longrightarrow> s i = Unopened \<Longrightarrow> open_blocks st i = None"
  by (simp add: tracks_def)

lemma tracksI:
  assumes "\<And>i. s i = Unopened \<Longrightarrow> open_blocks st i = None"
    and "\<And>i p. open_blocks st i = Some p \<Longrightarrow> p < length (assistant_blocks st)"
    and "\<And>i j p. open_blocks st i = Some p \<Longrightarrow> open_blocks st j = Some p \<Longrightarrow> i = j"
  shows "tracks s st"
  unfolding tracks_def using assms by blast

lemma wf_step_unopened: "wf_step s ev = Some s' \<Longrightarrow> s' i = Unopened \<Longrightarrow> s i = Unopened"
  by (auto simp: wf_step_def split: stream_event.splits if_splits)

lemma wf_step_start:
  "wf_step s (ContentBlockStart i b) = Some s' \<Longrightarrow> s i = Unopened \<and> s' = s(i := Open)"
  by (auto simp: wf_step_def split: if_splits)

lemma wf_step_refers:
  "wf_step s ev = Some s' \<Longrightarrow> fragment i ev \<noteq> [] \<Longrightarrow> s i = Open"
  by (auto simp: wf_step_def fragment_def split: stream_event.splits delta.splits if_splits)

lemma tracks_step:
  assumes tr: "tracks s st" and wf: "wf_step s ev = Some s1"
    and ev: "on_event loads st ev = Inr st1"
  shows "tracks s1 st1"
proof (cases "\<exists>i b. ev = ContentBlockStart i b")
  case True
  then obtain i b where start: "ev = ContentBlockStart i b" by blast
  from wf start have s1: "s1 = s(i := Open)" by (simp add: wf_step_start)
  from on_event_start [OF ev [unfolded start]]
  have ob: "open_blocks st1 = (open_blocks st)(i \<mapsto> length (assistant_blocks st))"
    and ab: "assistant_blocks st1 = assistant_blocks st @ [b]" by simp_all
  show ?thesis
  proof (rule tracksI)
    fix j assume "s1 j = Unopened"
    with s1 have "j \<noteq> i" "s j = Unopened" by (auto split: if_splits)
    with tracks_unopened [OF tr] ob show "open_blocks st1 j = None" by simp
  next
    fix j p assume "open_blocks st1 j = Some p"
    with ob tracks_ref [OF tr, of j p] ab show "p < length (assistant_blocks st1)"
      by (cases "j = i") simp_all
  next
    fix j k p assume a: "open_blocks st1 j = Some p" "open_blocks st1 k = Some p"
    have lt: "\<And>m q. open_blocks st m = Some q \<Longrightarrow> q < length (assistant_blocks st)"
      using tracks_ref [OF tr] .
    show "j = k"
    proof (cases "j = i"; cases "k = i")
      assume "j \<noteq> i" "k \<noteq> i"
      with a ob show ?thesis using tracks_inj [OF tr, of j p k] by simp
    qed (use a ob lt in \<open>auto\<close>)
  qed
next
  case False
  then have ns: "\<not> is_start i ev" for i
    by (auto simp: is_start_def split: stream_event.splits)
  have ob: "open_blocks st1 i = open_blocks st i" for i
    using on_event_open_blocks [OF ev ns] .
  have len: "length (assistant_blocks st) \<le> length (assistant_blocks st1)"
    using on_event_length [OF ev] by simp
  show ?thesis
  proof (rule tracksI)
    fix j assume "s1 j = Unopened"
    from wf_step_unopened [OF wf this] tracks_unopened [OF tr] ob
    show "open_blocks st1 j = None" by simp
  next
    fix j p assume "open_blocks st1 j = Some p"
    with ob tracks_ref [OF tr, of j p] len show "p < length (assistant_blocks st1)" by simp
  next
    fix j k p assume "open_blocks st1 j = Some p" "open_blocks st1 k = Some p"
    with ob show "j = k" using tracks_inj [OF tr, of j p k] by simp
  qed
qed

lemma append_text_text: "append_text blk t = Inr blk' \<Longrightarrow> text_of blk' = text_of blk @ t"
  by (auto simp: append_text_def text_of_def update_conv' split: option.splits json.splits)

lemma text_list_update:
  "text_of (xs[p := AList.update ''input'' v (xs ! p)] ! q) = text_of (xs ! q)"
  by (cases "p < length xs"; cases "q = p")
    (simp_all add: text_of_def update_conv' list_update_beyond)

lemma on_event_text:
  assumes ev: "on_event loads st ev = Inr st1" and tr: "tracks s st"
    and q: "open_blocks st j = Some q" and ns: "\<not> is_start j ev"
  shows "text_of (assistant_blocks st1 ! q) = text_of (assistant_blocks st ! q) @ fragment j ev"
proof -
  have lt: "q < length (assistant_blocks st)" using tracks_ref [OF tr q] .
  show ?thesis
  proof (cases ev)
    case (ContentBlockStart i b)
    from on_event_start [OF ev [unfolded this]] lt ContentBlockStart show ?thesis
      by (simp add: nth_append fragment_def)
  next
    case (ContentBlockDelta i d)
    show ?thesis
    proof (cases d)
      case (TextDelta x)
      from ev ContentBlockDelta TextDelta obtain p blk where
        p: "open_blocks st i = Some p"
        and blk: "append_text (assistant_blocks st ! p) x = Inr blk"
        and st1: "assistant_blocks st1 = (assistant_blocks st)[p := blk]"
        by (auto simp: on_event_def split: option.splits sum.splits)
      show ?thesis
      proof (cases "i = j")
        case True
        with p q have "p = q" by simp
        with st1 lt append_text_text [OF blk] True ContentBlockDelta TextDelta show ?thesis
          by (simp add: fragment_def)
      next
        case False
        with tracks_inj [OF tr p, of j] q have "p \<noteq> q" by auto
        with st1 False ContentBlockDelta TextDelta show ?thesis
          by (simp add: fragment_def)
      qed
    next
      case (InputJsonDelta x)
      with ev ContentBlockDelta have "assistant_blocks st1 = assistant_blocks st"
        by (auto simp: on_event_def split: option.splits)
      with ContentBlockDelta InputJsonDelta show ?thesis by (simp add: fragment_def)
    next
      case (OtherDelta x)
      with ev ContentBlockDelta have "assistant_blocks st1 = assistant_blocks st"
        by (auto simp: on_event_def split: option.splits)
      with ContentBlockDelta OtherDelta show ?thesis by (simp add: fragment_def)
    qed
  next
    case (ContentBlockStop i)
    with ev show ?thesis
      by (auto simp: on_event_def set_input_def fragment_def text_list_update
          split: option.splits if_splits sum.splits)
  next
    case (ToolUse d)
    with ev lt show ?thesis by (auto simp: on_event_def nth_append fragment_def)
  next
    case MessageStop
    with ev show ?thesis by (auto simp: on_event_def fragment_def)
  next
    case (OtherEvent x)
    with ev show ?thesis by (auto simp: on_event_def fragment_def)
  qed
qed

lemma wf_start_unopened:
  "wf_stream s evs \<Longrightarrow> ContentBlockStart i b \<in> set evs \<Longrightarrow> s i = Unopened"
proof (induction evs arbitrary: s)
  case Nil
  then show ?case by simp
next
  case (Cons ev evs)
  show ?case
  proof (cases "ev = MessageStop")
    case True
    with Cons.prems show ?thesis by simp
  next
    case False
    with Cons.prems obtain s' where s': "wf_step s ev = Some s'" "wf_stream s' evs"
      by (auto split: option.splits)
    show ?thesis
    proof (cases "ev = ContentBlockStart i b")
      case True
      with s' show ?thesis by (simp add: wf_step_start)
    next
      case False
      with Cons.prems have "ContentBlockStart i b \<in> set evs" by simp
      from Cons.IH [OF s'(2) this] s'(1) show ?thesis by (rule wf_step_unopened [rotated])
    qed
  qed
qed

lemma fragments_Cons: "fragments i (ev # evs) = fragment i ev @ fragments i evs"
  by (simp add: fragments_def)

lemma feed_wf:
  assumes "tracks s st" and "wf_stream s evs" and "feed loads st evs = Inr st'"
  shows "length (assistant_blocks st) \<le> length (assistant_blocks st') \<and>
         (\<forall>j q. open_blocks st j = Some q \<longrightarrow>
            text_of (assistant_blocks st' ! q) = text_of (assistant_blocks st ! q) @ fragments j evs) \<and>
         (\<forall>i b. ContentBlockStart i b \<in> set evs \<longrightarrow>
            length (assistant_blocks st) + block_pos i evs < length (assistant_blocks st') \<and>
            text_of (assistant_blocks st' ! (length (assistant_blocks st) + block_pos i evs))
              = text_of b @ fragments i evs)"
  using assms
proof (induction evs arbitrary: s st)
  case Nil
  then show ?case by (simp add: fragments_def)
next
  case (Cons ev evs)
  show ?case
  proof (cases "ev = MessageStop")
    case True
    with Cons.prems show ?thesis by (simp add: fragments_def fragment_def)
  next
    case False
    with Cons.prems obtain s1 where s1: "wf_step s ev = Some s1" "wf_stream s1 evs"
      by (auto split: option.splits)
    from False Cons.prems obtain st1 where
      st1: "on_event loads st ev = Inr st1" and rest: "feed loads st1 evs = Inr st'"
      by (auto split: sum.splits)
    note tr = Cons.prems(1)
    have tr1: "tracks s1 st1" using tracks_step [OF tr s1(1) st1] .
    have len1: "length (assistant_blocks st1) = length (assistant_blocks st) + creates ev"
      using on_event_length [OF st1] .
    from Cons.IH [OF tr1 s1(2) rest] have
      len': "length (assistant_blocks st1) \<le> length (assistant_blocks st')"
      and old': "\<And>j q. open_blocks st1 j = Some q \<Longrightarrow>
              text_of (assistant_blocks st' ! q) = text_of (assistant_blocks st1 ! q) @ fragments j evs"
      and new': "\<And>i b. ContentBlockStart i b \<in> set evs \<Longrightarrow>
              length (assistant_blocks st1) + block_pos i evs < length (assistant_blocks st') \<and>
              text_of (assistant_blocks st' ! (length (assistant_blocks st1) + block_pos i evs))
                = text_of b @ fragments i evs"
      by blast+
    have len: "length (assistant_blocks st) \<le> length (assistant_blocks st')"
      using len1 len' by simp
    have A: "text_of (assistant_blocks st' ! q) = text_of (assistant_blocks st ! q) @ fragments j (ev # evs)"
      if q: "open_blocks st j = Some q" for j q
    proof -
      have ns: "\<not> is_start j ev"
      proof
        assume "is_start j ev"
        then obtain b where "ev = ContentBlockStart j b"
          by (auto simp: is_start_def split: stream_event.splits)
        with s1(1) have "s j = Unopened" by (simp add: wf_step_start)
        with tracks_unopened [OF tr] q show False by simp
      qed
      from on_event_open_blocks [OF st1 ns] q have "open_blocks st1 j = Some q" by simp
      from old' [OF this] on_event_text [OF st1 tr q ns] show ?thesis
        by (simp add: fragments_Cons)
    qed
    have B: "length (assistant_blocks st) + block_pos i (ev # evs) < length (assistant_blocks st') \<and>
              text_of (assistant_blocks st' ! (length (assistant_blocks st) + block_pos i (ev # evs)))
                = text_of b @ fragments i (ev # evs)"
      if mem: "ContentBlockStart i b \<in> set (ev # evs)" for i b
    proof (cases "is_start i ev")
      case True
      then obtain b' where ev: "ev = ContentBlockStart i b'"
        by (auto simp: is_start_def split: stream_event.splits)
      with wf_step_start [of s i b' s1] s1(1) have "s1 i \<noteq> Unopened" by simp
      with wf_start_unopened [OF s1(2)] have "ContentBlockStart i b \<notin> set evs" by blast
      with mem ev have b: "b' = b" by simp
      from on_event_start [OF st1 [unfolded ev]]
      have "open_blocks st1 i = Some (length (assistant_blocks st))"
        "assistant_blocks st1 ! length (assistant_blocks st) = b'" by simp_all
      with old' [of i "length (assistant_blocks st)"] b
      have "text_of (assistant_blocks st' ! length (assistant_blocks st)) = text_of b @ fragments i evs"
        by simp
      moreover have "length (assistant_blocks st) < length (assistant_blocks st')"
        using len1 len' ev by (simp add: creates_def)
      ultimately show ?thesis using True ev by (simp add: fragments_Cons fragment_def)
    next
      case False
      with mem have in_evs: "ContentBlockStart i b \<in> set evs"
        by (auto simp: is_start_def)
      from wf_start_unopened [OF s1(2) in_evs] have un1: "s1 i = Unopened" .
      from wf_step_unopened [OF s1(1) un1] have un: "s i = Unopened" .
      have frag: "fragment i ev = []"
        using wf_step_refers [OF s1(1), of i] un by auto
      from new' [OF in_evs] False len1 frag show ?thesis
        by (simp add: fragments_Cons add.assoc)
    qed
    from len A B show ?thesis by blast
  qed
qed

lemma tracks_init: "tracks (\<lambda>_. Unopened) decoder_init"
  by (simp add: tracks_def decoder_init_def)

text \<open>
  C5, as amended. For every well-formed stream that the decoder decodes, the text of the
  block of each started index (\<^verbatim>\<open>blk.get("text", "")\<close> of the block at the position
  where its start put it) is the text that the stub of its start event carried, empty
  when it carried none, followed by the \<^verbatim>\<open>text_delta\<close> fragments delivered for that
  index, in the order of their arrival.
\<close>

theorem collect_from_stream_text:
  assumes "wf_stream (\<lambda>_. Unopened) evs"
    and "collect_from_stream loads evs = Inr (blocks, reqs)"
    and "ContentBlockStart i b \<in> set evs"
  shows "block_pos i evs < length blocks \<and>
         text_of (blocks ! block_pos i evs) = text_of b @ fragments i evs"
proof -
  from assms(2) obtain st' where st': "feed loads decoder_init evs = Inr st'"
    and blocks: "blocks = assistant_blocks st'"
    by (auto simp: collect_from_stream_def split: sum.splits)
  from feed_wf [OF tracks_init assms(1) st'] assms(3) blocks show ?thesis
    by (simp add: decoder_init_def)
qed

theorem collect_from_stream_text_witness:
  "wf_stream (\<lambda>_. Unopened) hello_stream \<and>
   collect_from_stream example_loads hello_stream =
     Inr ([[(''type'', JStr ''text''), (''text'', JStr ''Hello'')]], []) \<and>
   text_of ([[(''type'', JStr ''text''), (''text'', JStr ''Hello'')]] ! block_pos 0 hello_stream)
     = text_of [(''type'', JStr ''text''), (''text'', JStr [])] @ fragments 0 hello_stream"
proof -
  have wf: "wf_stream (\<lambda>_. Unopened) hello_stream"
    by (simp add: hello_stream_def wf_step_def)
  have c: "collect_from_stream example_loads hello_stream =
     Inr ([[(''type'', JStr ''text''), (''text'', JStr ''Hello'')]], [])"
    by (simp add: collect_from_stream_def hello_stream_def decoder_init_def on_event_def
        append_text_def)
  have m: "ContentBlockStart 0 [(''type'', JStr ''text''), (''text'', JStr [])] \<in> set hello_stream"
    by (simp add: hello_stream_def)
  from collect_from_stream_text [OF wf c m]
  have "text_of ([[(''type'', JStr ''text''), (''text'', JStr ''Hello'')]] ! block_pos 0 hello_stream)
     = text_of [(''type'', JStr ''text''), (''text'', JStr [])] @ fragments 0 hello_stream"
    by (rule conjunct2)
  with wf c show ?thesis by blast
qed

text \<open>
  The claim as stated fails on a stream whose start event carries text already: the
  reconstructed text is not the concatenation of the fragments alone.
\<close>

theorem collect_from_stream_keeps_stub_text:
  "collect_from_stream example_loads
     [ContentBlockStart 0 [(''type'', JStr ''text''), (''text'', JStr ''Hi'')],
      ContentBlockDelta 0 (TextDelta '' there''),
      ContentBlockStop 0,
      MessageStop]
   = Inr ([[(''type'', JStr ''text''), (''text'', JStr ''Hi there'')]], [])"
  by (simp add: collect_from_stream_def decoder_init_def on_event_def append_text_def)

lemma on_event_unopened:
  "open_blocks st i = None \<Longrightarrow> refers_to i ev \<Longrightarrow> on_event loads st ev = Inl KeyError"
  by (auto simp: on_event_def refers_to_def split: stream_event.splits)

text \<open>
  C8, as amended. When an event before any \<^verbatim>\<open>message_stop\<close> is a delta or a stop for an
  index that no earlier event has started, the decoder raises: KeyError at that event,
  unless an earlier event has raised already. Nothing is returned for the stream, and
  the loop, which catches no exception of the decoder, ends the run with that error.
\<close>

theorem unopened_reference_is_fatal:
  assumes "MessageStop \<notin> set pre"
    and "\<forall>e \<in> set pre. \<not> is_start i e"
    and "refers_to i ev"
  shows "collect_from_stream loads (pre @ ev # post) =
           Inl (case feed loads decoder_init pre of Inl e \<Rightarrow> e | Inr _ \<Rightarrow> KeyError)
         \<and> fst (iterations w (Suc n) k st (Stream h (pre @ ev # post) # rs)) =
           Raise (case feed (w_loads w) decoder_init pre of Inl e \<Rightarrow> e | Inr _ \<Rightarrow> KeyError)"
proof -
  have fatal: "collect_from_stream l (pre @ ev # post) =
           Inl (case feed l decoder_init pre of Inl e \<Rightarrow> e | Inr _ \<Rightarrow> KeyError)" for l
  proof (cases "feed l decoder_init pre")
    case (Inl e)
    with assms(1) show ?thesis by (simp add: collect_from_stream_def feed_append)
  next
    case (Inr st0)
    from feed_open_blocks [OF Inr assms(2)] have "open_blocks st0 i = None"
      by (simp add: decoder_init_def)
    from on_event_unopened [OF this assms(3), of l] assms(3)
    have "feed l st0 (ev # post) = Inl KeyError"
      by (auto simp: refers_to_def)
    with Inr assms(1) show ?thesis by (simp add: collect_from_stream_def feed_append)
  qed
  from fatal [of loads] fatal [of "w_loads w"] show ?thesis by simp
qed

theorem unopened_reference_is_fatal_witness:
  "collect_from_stream example_loads
     [ContentBlockStart 0 [(''type'', JStr ''text''), (''text'', JStr [])],
      ContentBlockDelta 1 (TextDelta ''Hi''),
      MessageStop] = Inl KeyError"
  using unopened_reference_is_fatal
    [of "[ContentBlockStart 0 [(''type'', JStr ''text''), (''text'', JStr [])]]" 1
        "ContentBlockDelta 1 (TextDelta ''Hi'')" example_loads "[MessageStop]"]
  by (simp add: is_start_def refers_to_def decoder_init_def on_event_def)

text \<open>
  The claim as stated fails on a stream in which the reference without a start comes
  after \<^verbatim>\<open>message_stop\<close>: the decoder has left its loop and returns.
\<close>

theorem reference_after_message_stop_is_ignored:
  "collect_from_stream example_loads [MessageStop, ContentBlockStop 0] = Inr ([], [])"
  by (simp add: collect_from_stream_def decoder_init_def)

lemma on_event_refs_ok:
  assumes "refs_ok st" "on_event loads st ev = Inr st'"
  shows "refs_ok st'"
proof (cases ev)
  case (ContentBlockStart i b)
  with assms show ?thesis
    by (auto simp: on_event_def refs_ok_def Let_def less_Suc_eq split: option.splits if_splits)
next
  case (ContentBlockDelta i d)
  with assms show ?thesis
    by (auto simp: on_event_def refs_ok_def split: option.splits delta.splits sum.splits)
next
  case (ContentBlockStop i)
  with assms show ?thesis
    by (auto simp: on_event_def set_input_def refs_ok_def Let_def
        split: option.splits if_splits sum.splits)
next
  case (ToolUse d)
  with assms show ?thesis
    by (auto simp: on_event_def refs_ok_def less_Suc_eq)
qed (use assms in \<open>auto simp: on_event_def\<close>)

lemma feed_refs_ok: "refs_ok st \<Longrightarrow> feed loads st evs = Inr st' \<Longrightarrow> refs_ok st'"
proof (induction evs arbitrary: st)
  case Nil
  then show ?case by simp
next
  case (Cons ev evs)
  show ?case
  proof (cases "ev = MessageStop")
    case True
    with Cons.prems show ?thesis by simp
  next
    case False
    with Cons.prems obtain st1 where "on_event loads st ev = Inr st1" "feed loads st1 evs = Inr st'"
      by (auto split: sum.splits)
    with Cons.IH on_event_refs_ok [OF Cons.prems(1)] show ?thesis by blast
  qed
qed

lemma type_list_update:
  "k \<noteq> ''type'' \<Longrightarrow>
   map_of (xs[q := AList.update k v (xs ! q)] ! p) ''type'' = map_of (xs ! p) ''type''"
  by (cases "q < length xs"; cases "p = q") (simp_all add: update_conv' list_update_beyond)

lemma on_event_type:
  "on_event loads st ev = Inr st' \<Longrightarrow> p < length (assistant_blocks st) \<Longrightarrow>
   map_of (assistant_blocks st' ! p) ''type'' = map_of (assistant_blocks st ! p) ''type''"
  by (cases ev)
    (auto simp: on_event_def set_input_def Let_def nth_append append_text_def type_list_update
      split: option.splits if_splits delta.splits sum.splits json.splits)

lemma on_event_partial_json:
  "on_event loads st ev = Inr st' \<Longrightarrow> \<not> is_start i ev \<Longrightarrow> partial_json st i = Some a \<Longrightarrow>
   partial_json st' i = Some (a @ json_fragment i ev)"
  by (cases ev)
    (auto simp: on_event_def set_input_def Let_def is_start_def json_fragment_def
      split: option.splits if_splits delta.splits sum.splits)

lemma feed_block:
  assumes "feed loads st evs = Inr st'" "MessageStop \<notin> set evs" "\<forall>e \<in> set evs. \<not> is_start i e"
    and "open_blocks st i = Some p" "p < length (assistant_blocks st)"
    and "partial_json st i = Some a"
  shows "open_blocks st' i = Some p \<and> p < length (assistant_blocks st') \<and>
         map_of (assistant_blocks st' ! p) ''type'' = map_of (assistant_blocks st ! p) ''type'' \<and>
         partial_json st' i = Some (a @ json_fragments i evs)"
  using assms
proof (induction evs arbitrary: st a)
  case Nil
  then show ?case by (simp add: json_fragments_def)
next
  case (Cons ev evs)
  from Cons.prems obtain st1 where st1: "on_event loads st ev = Inr st1" "feed loads st1 evs = Inr st'"
    by (auto split: sum.splits if_splits)
  from Cons.prems have ns: "\<not> is_start i ev" by simp
  have 1: "open_blocks st1 i = Some p"
    using on_event_open_blocks [OF st1(1) ns] Cons.prems(4) by simp
  have 2: "p < length (assistant_blocks st1)"
    using on_event_length [OF st1(1)] Cons.prems(5) by simp
  have 3: "partial_json st1 i = Some (a @ json_fragment i ev)"
    using on_event_partial_json [OF st1(1) ns Cons.prems(6)] .
  have 4: "map_of (assistant_blocks st1 ! p) ''type'' = map_of (assistant_blocks st ! p) ''type''"
    using on_event_type [OF st1(1) Cons.prems(5)] .
  from Cons.IH [OF st1(2) _ _ 1 2 3] Cons.prems(2,3) 4 show ?case
    by (simp add: json_fragments_def)
qed

lemma reachable_refs_ok: "feed loads decoder_init evs = Inr st \<Longrightarrow> refs_ok st"
  by (rule feed_refs_ok [of decoder_init]) (simp_all add: refs_ok_def decoder_init_def)


lemma feed_length:
  "feed loads st evs = Inr st' \<Longrightarrow> MessageStop \<notin> set evs \<Longrightarrow>
   length (assistant_blocks st') = length (assistant_blocks st) + blocks_created evs"
proof (induction evs arbitrary: st)
  case Nil
  then show ?case by (simp add: blocks_created_def)
next
  case (Cons ev evs)
  from Cons.prems obtain st1 where st1: "on_event loads st ev = Inr st1" "feed loads st1 evs = Inr st'"
    by (auto split: sum.splits if_splits)
  from Cons.IH [OF st1(2)] Cons.prems(2) on_event_length [OF st1(1)] show ?case
    by (simp add: blocks_created_def)
qed

lemma at_stop:
  assumes stop: "MessageStop \<notin> set (before @ deltas)"
    and tool: "map_of stub ''type'' = Some (JStr ''tool_use'')"
    and once: "\<forall>e \<in> set deltas. \<not> is_start idx e"
    and fine: "feed loads decoder_init (before @ ContentBlockStart idx stub # deltas) = Inr st"
  shows "open_blocks st idx = Some (blocks_created before) \<and>
         blocks_created before < length (assistant_blocks st) \<and>
         map_of (assistant_blocks st ! blocks_created before) ''type'' = Some (JStr ''tool_use'') \<and>
         partial_json st idx = Some (json_fragments idx deltas)"
proof -
  from stop have sb: "MessageStop \<notin> set before" and sd: "MessageStop \<notin> set deltas" by simp_all
  from fine sb obtain st0 where st0: "feed loads decoder_init before = Inr st0"
    and rest: "feed loads st0 (ContentBlockStart idx stub # deltas) = Inr st"
    by (auto simp: feed_append split: sum.splits)
  define p where "p = length (assistant_blocks st0)"
  have p: "p = blocks_created before"
    using feed_length [OF st0 sb] by (simp add: p_def decoder_init_def)
  define st1 where "st1 = st0\<lparr>open_blocks := (open_blocks st0)(idx \<mapsto> p),
      assistant_blocks := assistant_blocks st0 @ [stub],
      partial_json := (partial_json st0)(idx \<mapsto> [])\<rparr>"
  have ev: "on_event loads st0 (ContentBlockStart idx stub) = Inr st1"
    using tool by (simp add: on_event_def st1_def p_def)
  with rest have mid: "feed loads st1 deltas = Inr st" by simp
  have "open_blocks st1 idx = Some p" "p < length (assistant_blocks st1)"
    "partial_json st1 idx = Some []" "assistant_blocks st1 ! p = stub"
    by (simp_all add: st1_def p_def)
  with feed_block [OF mid sd once, of p "[]"] tool p show ?thesis by simp
qed

text \<open>
  What \<^verbatim>\<open>content_block_stop\<close> does with the fragments accumulated for a block of type
  \<^verbatim>\<open>tool_use\<close>: a JSONDecodeError of the parser is caught and gives the empty dictionary;
  any other exception of the parser leaves the decoder.
\<close>

lemma decode_error_gives_empty_input:
  assumes stop: "MessageStop \<notin> set (before @ deltas)"
    and tool: "map_of stub ''type'' = Some (JStr ''tool_use'')"
    and once: "\<forall>e \<in> set deltas. \<not> is_start idx e"
    and fine: "feed loads decoder_init (before @ ContentBlockStart idx stub # deltas) = Inr st"
    and bad: "loads (json_fragments idx deltas) = Inl JSONDecodeError"
  shows "\<exists>blocks reqs.
           collect_from_stream loads
             (before @ ContentBlockStart idx stub # deltas @ [ContentBlockStop idx])
             = Inr (blocks, reqs) \<and>
           blocks_created before < length blocks \<and>
           dict_get (blocks ! blocks_created before) ''input'' = JObj [] \<and>
           reqs \<noteq> [] \<and> last reqs = blocks ! blocks_created before"
proof -
  note s = at_stop [OF stop tool once fine]
  have "on_event loads st (ContentBlockStop idx) =
      Inr (set_input st (blocks_created before) (JObj []))"
    using s bad by (simp add: on_event_def)
  moreover have "MessageStop \<notin> set (before @ ContentBlockStart idx stub # deltas)"
    using stop by simp
  ultimately have "feed loads decoder_init
      ((before @ ContentBlockStart idx stub # deltas) @ [ContentBlockStop idx]) =
      Inr (set_input st (blocks_created before) (JObj []))"
    using fine feed_append [of "before @ ContentBlockStart idx stub # deltas" loads decoder_init
        "[ContentBlockStop idx]"]
    by simp
  then show ?thesis using s
    by (simp add: collect_from_stream_def set_input_def dict_get_update_same)
qed

lemma parser_exception_propagates:
  assumes stop: "MessageStop \<notin> set (before @ deltas)"
    and tool: "map_of stub ''type'' = Some (JStr ''tool_use'')"
    and once: "\<forall>e \<in> set deltas. \<not> is_start idx e"
    and fine: "feed loads decoder_init (before @ ContentBlockStart idx stub # deltas) = Inr st"
    and bad: "loads (json_fragments idx deltas) = Inl e" "e \<noteq> JSONDecodeError"
  shows "collect_from_stream loads
           (before @ ContentBlockStart idx stub # deltas @ ContentBlockStop idx # rest) = Inl e"
proof -
  note s = at_stop [OF stop tool once fine]
  have "on_event loads st (ContentBlockStop idx) = Inl e"
    using s bad by (simp add: on_event_def)
  moreover have "MessageStop \<notin> set (before @ ContentBlockStart idx stub # deltas)"
    using stop by simp
  ultimately have "feed loads decoder_init
      ((before @ ContentBlockStart idx stub # deltas) @ ContentBlockStop idx # rest) = Inl e"
    using fine feed_append [of "before @ ContentBlockStart idx stub # deltas" loads decoder_init
        "ContentBlockStop idx # rest"]
    by simp
  then show ?thesis by (simp add: collect_from_stream_def)
qed

lemma deep_nesting_head: "deep_nesting = CHR ''['' # replicate 999 (CHR ''['')"
proof -
  have "(1000::nat) = Suc 999" by simp
  then show ?thesis unfolding deep_nesting_def by (simp only: replicate_Suc)
qed

text \<open>
  C6. A block of type \<^verbatim>\<open>tool_use\<close> receives a thousand opening brackets as its
  arguments. The fragments form no JSON document, and the parser raises RecursionError
  on them; \<^verbatim>\<open>except json.JSONDecodeError\<close> does not catch it, so
  \<^verbatim>\<open>content_block_stop\<close> raises, the input is not set to the empty dictionary and the
  decoder returns nothing.
\<close>

theorem deep_nesting_leaves_decoder:
  "collect_from_stream example_loads deep_input_stream = Inl RecursionError"
  by (simp add: collect_from_stream_def deep_input_stream_def decoder_init_def on_event_def
      example_loads_def action_json_def quoted_def deep_nesting_head)

section \<open>Properties of the action dispatcher\<close>

lemma act_counter:
  "act eff g call = Inr (g', r) \<Longrightarrow> PROCESSSTEP g' = PROCESSSTEP g + 1 \<and> \<not> snd (snd r)"
  by (auto simp: act_def split: sum.splits)

lemma act_ok: "\<not> isl (gui eff call) \<Longrightarrow> \<not> isl (act eff g call)"
  by (auto simp: act_def split: sum.splits)

lemma navigate_counter:
  "navigate g x = Inr (g', r) \<Longrightarrow> PROCESSSTEP g' = PROCESSSTEP g"
  by (auto simp: navigate_def split: sum.splits prod.splits)

lemma invalid_result:
  "action_kind ti = Invalid \<Longrightarrow>
   try_tool bi eff g ti =
     Inr (g\<lparr>PROCESSSTEP := PROCESSSTEP g + 1\<rparr>, ''text'', JStr (unknown_action @ py_repr bi ti), True)"
  by (auto simp: action_kind_def try_tool_def Let_def split: if_splits json.splits)


lemma try_screenshot:
  "dict_get ti ''action'' = JStr ''screenshot'' \<Longrightarrow>
   try_tool bi eff g ti =
     (case gui eff Screenshot of
        Inl msg \<Rightarrow> Inl msg
      | Inr encoded \<Rightarrow>
          Inr (g\<lparr>PROCESSSTEP := PROCESSSTEP g + 1\<rparr>, ''image'',
               JObj [(''type'', JStr ''base64''), (''media_type'', JStr ''image/png''),
                     (''data'', JStr encoded)],
               False))"
  by (simp add: try_tool_def)

lemma try_mouse_move:
  "dict_get ti ''action'' = JStr ''mouse_move'' \<Longrightarrow> dict_get ti ''coordinate'' = JList xs \<Longrightarrow>
   try_tool bi eff g ti = act eff g (MoveTo xs)"
  by (simp add: try_tool_def)

lemma try_left_click:
  "dict_get ti ''action'' = JStr ''left_click'' \<Longrightarrow>
   try_tool bi eff g ti =
     (case click_args (dict_get ti ''coordinate'') of
        Inl e \<Rightarrow> Inl (str_exc bi e)
      | Inr xy \<Rightarrow> act eff g (Click xy ''left''))"
  by (simp add: try_tool_def)

lemma try_right_click:
  "dict_get ti ''action'' = JStr ''right_click'' \<Longrightarrow>
   try_tool bi eff g ti =
     (case click_args (dict_get ti ''coordinate'') of
        Inl e \<Rightarrow> Inl (str_exc bi e)
      | Inr xy \<Rightarrow> act eff g (Click xy ''right''))"
  by (simp add: try_tool_def)

lemma try_double_click:
  "dict_get ti ''action'' = JStr ''double_click'' \<Longrightarrow>
   try_tool bi eff g ti =
     (case click_args (dict_get ti ''coordinate'') of
        Inl e \<Rightarrow> Inl (str_exc bi e)
      | Inr xy \<Rightarrow> act eff g (DoubleClick xy))"
  by (simp add: try_tool_def)

lemma try_type:
  "dict_get ti ''action'' = JStr ''type'' \<Longrightarrow> dict_get ti ''text'' = JStr s \<Longrightarrow>
   try_tool bi eff g ti = act eff g (Write s)"
  by (simp add: try_tool_def)

lemma try_key:
  "dict_get ti ''action'' = JStr ''key'' \<Longrightarrow> dict_get ti ''text'' = JStr s \<Longrightarrow>
   try_tool bi eff g ti = act eff g (Press s)"
  by (simp add: try_tool_def)

lemma try_scroll:
  "dict_get ti ''action'' = JStr ''scroll'' \<Longrightarrow> truthy (dict_get ti ''scroll_direction'') \<Longrightarrow>
   try_tool bi eff g ti =
     (case scroll_call (dict_get ti ''scroll_direction'') (dict_get ti ''scroll_amount'') of
        Inl e \<Rightarrow> Inl (str_exc bi e)
      | Inr call \<Rightarrow> act eff g call)"
  by (simp add: try_tool_def)

lemma try_wait:
  "dict_get ti ''action'' = JStr ''wait'' \<Longrightarrow> is_number (dict_get ti ''duration'') \<Longrightarrow>
   try_tool bi eff g ti = act eff g (Sleep (dict_get ti ''duration''))"
  by (simp add: try_tool_def)

lemma try_prev:
  "dict_get ti ''action'' = JStr ''prev'' \<Longrightarrow>
   try_tool bi eff g ti = navigate g (get_prev_step bi (graph_db eff) (PROCESSSTEP_ID g))"
  by (simp add: try_tool_def)

lemma try_next:
  "dict_get ti ''action'' = JStr ''next'' \<Longrightarrow>
   try_tool bi eff g ti = navigate g (get_next_step bi (graph_db eff) (PROCESSSTEP_ID g))"
  by (simp add: try_tool_def)

lemma try_curr:
  "dict_get ti ''action'' = JStr ''curr'' \<Longrightarrow>
   try_tool bi eff g ti = navigate g (get_curr_step bi (graph_db eff) (PROCESSSTEP_ID g))"
  by (simp add: try_tool_def)

lemma desktop_cases:
  assumes "action_kind ti = Desktop"
  obtains "dict_get ti ''action'' = JStr ''screenshot''"
  | xs where "dict_get ti ''action'' = JStr ''mouse_move''" "dict_get ti ''coordinate'' = JList xs"
  | "dict_get ti ''action'' = JStr ''left_click''"
  | "dict_get ti ''action'' = JStr ''right_click''"
  | "dict_get ti ''action'' = JStr ''double_click''"
  | s where "dict_get ti ''action'' = JStr ''type''" "dict_get ti ''text'' = JStr s"
  | s where "dict_get ti ''action'' = JStr ''key''" "dict_get ti ''text'' = JStr s"
  | "dict_get ti ''action'' = JStr ''scroll''" "truthy (dict_get ti ''scroll_direction'')"
  | "dict_get ti ''action'' = JStr ''wait''" "is_number (dict_get ti ''duration'')"
  using assms unfolding action_kind_def Let_def
  by (auto split: if_splits json.splits)

lemma desktop_try:
  assumes "action_kind ti = Desktop" "try_tool bi eff g ti = Inr (g', r)"
  shows "PROCESSSTEP g' = PROCESSSTEP g + 1 \<and> \<not> snd (snd r)"
  using assms(1)
proof (cases rule: desktop_cases)
  case 1
  with assms(2) show ?thesis by (auto simp: try_screenshot split: sum.splits)
next
  case (2 xs)
  with assms(2) show ?thesis by (auto simp: try_mouse_move dest: act_counter)
next
  case 3
  with assms(2) show ?thesis by (auto simp: try_left_click dest: act_counter split: sum.splits)
next
  case 4
  with assms(2) show ?thesis by (auto simp: try_right_click dest: act_counter split: sum.splits)
next
  case 5
  with assms(2) show ?thesis by (auto simp: try_double_click dest: act_counter split: sum.splits)
next
  case (6 s)
  with assms(2) show ?thesis by (auto simp: try_type dest: act_counter)
next
  case (7 s)
  with assms(2) show ?thesis by (auto simp: try_key dest: act_counter)
next
  case 8
  with assms(2) show ?thesis by (auto simp: try_scroll dest: act_counter split: sum.splits)
next
  case 9
  with assms(2) show ?thesis by (auto simp: try_wait dest: act_counter)
qed

lemma desktop_succeeds:
  assumes "action_kind ti = Desktop" "\<forall>c. \<not> isl (gui eff c)" "arguments_ok ti"
  shows "\<not> isl (try_tool bi eff g ti)"
  using assms(1)
proof (cases rule: desktop_cases)
  case 1
  with assms(2) [rule_format, of Screenshot] show ?thesis
    by (auto simp: try_screenshot split: sum.splits)
next
  case (2 xs)
  with assms(2) show ?thesis by (simp add: try_mouse_move act_ok)
next
  case 3
  with assms(2,3) show ?thesis
    by (auto simp: try_left_click arguments_ok_def act_ok split: sum.splits)
next
  case 4
  with assms(2,3) show ?thesis
    by (auto simp: try_right_click arguments_ok_def act_ok split: sum.splits)
next
  case 5
  with assms(2,3) show ?thesis
    by (auto simp: try_double_click arguments_ok_def act_ok split: sum.splits)
next
  case (6 s)
  with assms(2) show ?thesis by (simp add: try_type act_ok)
next
  case (7 s)
  with assms(2) show ?thesis by (simp add: try_key act_ok)
next
  case 8
  with assms(2,3) show ?thesis
    by (auto simp: try_scroll arguments_ok_def act_ok split: sum.splits)
next
  case 9
  with assms(2) show ?thesis by (simp add: try_wait act_ok)
qed

lemma navigation_try:
  assumes "action_kind ti = Navigation" "try_tool bi eff g ti = Inr (g', r)"
  shows "PROCESSSTEP g' = PROCESSSTEP g"
proof -
  from assms(1) consider "dict_get ti ''action'' = JStr ''prev''"
    | "dict_get ti ''action'' = JStr ''next''" | "dict_get ti ''action'' = JStr ''curr''"
    unfolding action_kind_def Let_def by (auto split: if_splits json.splits)
  then show ?thesis
  proof cases
    case 1
    with assms(2) show ?thesis by (auto simp: try_prev dest: navigate_counter)
  next
    case 2
    with assms(2) show ?thesis by (auto simp: try_next dest: navigate_counter)
  next
    case 3
    with assms(2) show ?thesis by (auto simp: try_curr dest: navigate_counter)
  qed
qed

text \<open>
  C1, as amended. For a desktop action that carries its required arguments,
  \<^verbatim>\<open>PROCESSSTEP\<close> is incremented exactly once when the action returns without error and
  is unchanged when it returns an error (an exception was caught); it returns without
  error whenever its arguments evaluate and the calls of the desktop library succeed.
  The navigation actions \<^verbatim>\<open>prev\<close>, \<^verbatim>\<open>next\<close> and \<^verbatim>\<open>curr\<close> never change \<^verbatim>\<open>PROCESSSTEP\<close>.
  An action that is not recognised, or that lacks a required argument, returns a text
  payload that describes the request, with the error flag set.
\<close>

theorem execute_computer_tool_counter:
  fixes bi eff g tool_input
  defines "r \<equiv> execute_computer_tool bi eff g tool_input"
  shows "case action_kind tool_input of
           Invalid \<Rightarrow>
             snd r = (''text'', JStr (unknown_action @ py_repr bi tool_input), True)
         | Navigation \<Rightarrow> PROCESSSTEP (fst r) = PROCESSSTEP g
         | Desktop \<Rightarrow>
             PROCESSSTEP (fst r) = PROCESSSTEP g + (if is_error r then 0 else 1) \<and>
             ((\<forall>call. \<not> isl (gui eff call)) \<and> arguments_ok tool_input \<longrightarrow> \<not> is_error r)"
proof (cases "action_kind tool_input")
  case Invalid
  from invalid_result [OF this, of bi eff g] Invalid show ?thesis
    by (simp add: r_def execute_computer_tool_def)
next
  case Navigation
  have "PROCESSSTEP (fst r) = PROCESSSTEP g"
  proof (cases "try_tool bi eff g tool_input")
    case (Inl msg)
    then show ?thesis by (simp add: r_def execute_computer_tool_def)
  next
    case (Inr x)
    obtain g' res where x: "x = (g', res)" by (cases x)
    from navigation_try [OF Navigation Inr [unfolded x]] Inr x show ?thesis
      by (simp add: r_def execute_computer_tool_def)
  qed
  with Navigation show ?thesis by simp
next
  case Desktop
  have 1: "PROCESSSTEP (fst r) = PROCESSSTEP g + (if is_error r then 0 else 1)"
  proof (cases "try_tool bi eff g tool_input")
    case (Inl msg)
    then show ?thesis by (simp add: r_def execute_computer_tool_def is_error_def)
  next
    case (Inr x)
    obtain g' res where x: "x = (g', res)" by (cases x)
    from desktop_try [OF Desktop Inr [unfolded x]] Inr x show ?thesis
      by (simp add: r_def execute_computer_tool_def is_error_def)
  qed
  have 2: "\<not> is_error r" if "\<forall>call. \<not> isl (gui eff call)" "arguments_ok tool_input"
  proof -
    from desktop_succeeds [OF Desktop that, of bi g]
    obtain x where Inr: "try_tool bi eff g tool_input = Inr x" by (cases "try_tool bi eff g tool_input") auto
    obtain g' res where x: "x = (g', res)" by (cases x)
    from desktop_try [OF Desktop Inr [unfolded x]] Inr x show ?thesis
      by (simp add: r_def execute_computer_tool_def is_error_def)
  qed
  from 1 2 Desktop show ?thesis by simp
qed

theorem execute_computer_tool_counter_witness:
  "PROCESSSTEP (fst (execute_computer_tool example_builtins example_effector
      \<lparr>PROCESSSTEP = 5, PROCESSSTEP_ID = 1\<rparr> scroll_down_3)) = 6
   \<and> PROCESSSTEP (fst (execute_computer_tool example_builtins example_effector
      \<lparr>PROCESSSTEP = 5, PROCESSSTEP_ID = 1\<rparr> [(''action'', JStr ''curr'')])) = 5
   \<and> snd (execute_computer_tool example_builtins example_effector
      \<lparr>PROCESSSTEP = 5, PROCESSSTEP_ID = 1\<rparr> [(''action'', JStr ''type'')])
      = (''text'', JStr (unknown_action @ ''{'action': 'type'}''), True)"
proof -
  have ok: "\<forall>call. \<not> isl (gui example_effector call)"
    by (simp add: example_effector_def split: gui_call.splits)
  have args: "arguments_ok scroll_down_3"
    by (simp add: arguments_ok_def scroll_down_3_def dict_get_def scroll_call_def)
  have kind: "action_kind scroll_down_3 = Desktop"
    by (simp add: action_kind_def scroll_down_3_def dict_get_def)
  from execute_computer_tool_counter
    [of example_builtins example_effector "\<lparr>PROCESSSTEP = 5, PROCESSSTEP_ID = 1\<rparr>" scroll_down_3]
    ok args kind
  have 1: "PROCESSSTEP (fst (execute_computer_tool example_builtins example_effector
      \<lparr>PROCESSSTEP = 5, PROCESSSTEP_ID = 1\<rparr> scroll_down_3)) = 6"
    by simp
  from execute_computer_tool_counter
    [of example_builtins example_effector "\<lparr>PROCESSSTEP = 5, PROCESSSTEP_ID = 1\<rparr>"
        "[(''action'', JStr ''curr'')]"]
  have 2: "PROCESSSTEP (fst (execute_computer_tool example_builtins example_effector
      \<lparr>PROCESSSTEP = 5, PROCESSSTEP_ID = 1\<rparr> [(''action'', JStr ''curr'')])) = 5"
    by (simp add: action_kind_def dict_get_def)
  from execute_computer_tool_counter
    [of example_builtins example_effector "\<lparr>PROCESSSTEP = 5, PROCESSSTEP_ID = 1\<rparr>"
        "[(''action'', JStr ''type'')]"]
  have 3: "snd (execute_computer_tool example_builtins example_effector
      \<lparr>PROCESSSTEP = 5, PROCESSSTEP_ID = 1\<rparr> [(''action'', JStr ''type'')])
      = (''text'', JStr (unknown_action @ ''{'action': 'type'}''), True)"
    by (simp add: action_kind_def dict_get_def example_builtins_def)
  from 1 2 3 show ?thesis by simp
qed

text \<open>
  The claim as stated fails twice: \<^verbatim>\<open>next\<close> succeeds and leaves the counter at 5, and
  the unknown action \<^verbatim>\<open>fly\<close> returns an error and moves the counter to 6.
\<close>

theorem counter_on_navigation_and_unknown_action:
  "execute_computer_tool example_builtins example_effector
      \<lparr>PROCESSSTEP = 5, PROCESSSTEP_ID = 1\<rparr> [(''action'', JStr ''next'')]
     = (\<lparr>PROCESSSTEP = 5, PROCESSSTEP_ID = 2\<rparr>, ''text'', JStr no_next_step, False)
   \<and> execute_computer_tool example_builtins example_effector
      \<lparr>PROCESSSTEP = 5, PROCESSSTEP_ID = 1\<rparr> [(''action'', JStr ''fly'')]
     = (\<lparr>PROCESSSTEP = 6, PROCESSSTEP_ID = 1\<rparr>, ''text'',
        JStr (unknown_action @ ''{'action': 'fly'}''), True)"
  by (simp add: execute_computer_tool_def try_tool_def dict_get_def navigate_def
      get_next_step_def first_row_def example_effector_def example_builtins_def is_number_def)

section \<open>Properties of the rate limiter\<close>

lemma float_overflow_large: "1000000 < float_overflow"
proof -
  have "(2::real) ^ 970 * 63 \<le> 2 ^ 970 * (2 ^ 54 - 1)" by simp
  have "(1000000::real) < 2 ^ 970"
  proof -
    have "(1000000::real) < 2 ^ 20" by simp
    also have "\<dots> \<le> 2 ^ 970" by (rule power_increasing) simp_all
    finally show ?thesis .
  qed
  moreover have "(2::real) ^ 1024 = 2 ^ 970 * 2 ^ 54" by (simp add: power_add [symmetric])
  moreover have "(2::real) ^ 970 \<le> 2 ^ 970 * (2 ^ 54 - 1)" by simp
  ultimately show ?thesis by (simp add: float_overflow_def algebra_simps)
qed

lemma to_float_small:
  assumes "\<bar>x\<bar> \<le> 1000000"
  shows "to_float x = Finite x"
proof -
  from assms float_overflow_large have "x < float_overflow" "- float_overflow < x"
    by linarith+
  then show ?thesis by (simp add: to_float_def)
qed

lemma round_up_ms_nonnegative: "round_up_ms wait fudge = Inr d \<Longrightarrow> 0 \<le> d"
proof -
  have fin: "0 \<le> d" if "ceil_ms (to_float (y * 1000)) = Inr d" "0 \<le> y" for y
  proof -
    from that(2) have "0 \<le> y * 1000" by simp
    then have up: "0 \<le> \<lceil>y * 1000\<rceil>" by linarith
    from that(1) have d: "d = real_of_int \<lceil>y * 1000\<rceil> / 1000"
      by (auto simp: to_float_def split: if_splits)
    have "0 \<le> real_of_int \<lceil>y * 1000\<rceil> / 1000"
      using up by (intro divide_nonneg_nonneg) simp_all
    with d show ?thesis by (simp only:)
  qed
  assume r: "round_up_ms wait fudge = Inr d"
  show ?thesis
  proof (cases "max_zero (float_add wait fudge)")
    case (Finite y)
    then have "0 \<le> y" by (cases "float_add wait fudge") auto
    with r Finite fin show ?thesis by (simp add: round_up_ms_def)
  qed (use r in \<open>simp_all add: round_up_ms_def\<close>)
qed

lemma wait_nonnegative: "wait_until_itpm_reset c hdrs ts fudge = Inr d \<Longrightarrow> 0 \<le> d"
  by (auto simp: wait_until_itpm_reset_def dest: round_up_ms_nonnegative split: sum.splits)

lemma wait_with_timestamp:
  assumes "ts \<noteq> []" and "reset_seconds c (replace_Z ts) = Inr reset"
    and "\<bar>reset - now c\<bar> \<le> 500" and "\<bar>fudge\<bar> \<le> 100"
  shows "wait_until_itpm_reset c hdrs (Some ts) fudge =
           Inr (real_of_int \<lceil>max 0 ((reset - now c) + 2 * fudge) * 1000\<rceil> / 1000)"
proof -
  from assms(3,4) have 1: "to_float (reset - now c) = Finite (reset - now c)"
    and 2: "to_float (reset - now c + fudge) = Finite (reset - now c + fudge)"
    and 3: "to_float (reset - now c + fudge + fudge) = Finite (reset - now c + fudge + fudge)"
    by (simp_all add: to_float_small)
  from assms(3,4) have "max 0 (reset - now c + fudge + fudge) \<le> 700"
    "0 \<le> max 0 (reset - now c + fudge + fudge)"
    by (simp_all add: max_def abs_if split: if_splits)
  then have "\<bar>max 0 (reset - now c + fudge + fudge) * 1000\<bar> \<le> 1000000"
    by (simp add: abs_if)
  then have 4: "to_float (max 0 (reset - now c + fudge + fudge) * 1000)
      = Finite (max 0 (reset - now c + fudge + fudge) * 1000)"
    by (rule to_float_small)
  have 5: "reset - now c + fudge + fudge = reset - now c + 2 * fudge" by simp
  from assms(1) obtain t ts' where ts: "ts = t # ts'" by (cases ts) auto
  have "wait_until_itpm_reset c hdrs (Some ts) fudge =
      round_up_ms (float_add (to_float (reset - now c)) fudge) fudge"
    using assms(2) unfolding ts by (simp add: wait_until_itpm_reset_def)
  also have "\<dots> = round_up_ms (Finite (reset - now c + fudge)) fudge"
    by (simp only: 1 float_add.simps 2)
  also have "\<dots> = ceil_ms (float_times_1000 (max_zero (Finite (reset - now c + fudge + fudge))))"
    by (simp only: round_up_ms_def float_add.simps 3)
  also have "\<dots> = ceil_ms (Finite (max 0 (reset - now c + fudge + fudge) * 1000))"
    by (simp only: max_zero.simps float_times_1000.simps 4)
  also have "\<dots> = Inr (real_of_int \<lceil>max 0 (reset - now c + fudge + fudge) * 1000\<rceil> / 1000)"
    by (simp only: ceil_ms.simps)
  also have "\<dots> = Inr (real_of_int \<lceil>max 0 ((reset - now c) + 2 * fudge) * 1000\<rceil> / 1000)"
    by (simp only: 5)
  finally show ?thesis .
qed

text \<open>
  C2. With a reset timestamp ten seconds after \<^verbatim>\<open>now\<close> and a fudge of 0.5, the function
  sleeps 11 seconds: the branch for a timestamp adds the fudge, and the line after the
  branches adds it again. The claim gives 10.5 seconds.
\<close>

theorem itpm_wait_adds_fudge_twice:
  "wait_until_itpm_reset example_clock [] (Some ''2025-07-25T12:00:10Z'') (1 / 2) = Inr 11"
  by (simp add: wait_until_itpm_reset_def example_clock_def replace_Z_def round_up_ms_def
      to_float_small)

section \<open>Properties of the loop controller\<close>

text \<open>
  C4. When the first request of a run fails with a rate-limit error, the handler reads
  \<^verbatim>\<open>TIME_TO_WAIT\<close>, which no statement has assigned yet: the run ends with
  UnboundLocalError, without a wait and without a second request.
\<close>

theorem first_request_throttled_crashes:
  "run_agent_loop w g user_prompt (1 + int n) (RateLimitError h # rs) =
     (Raise UnboundLocalError,
      \<lparr>messages = [[(''role'', JStr ''user''), (''content'', user_prompt)]],
       counters = g, TIME_TO_WAIT = Unbound, slept = [], dispatched = 0\<rparr>)"
proof -
  have "nat (1 + int n) = Suc n" by simp
  then show ?thesis by (simp add: run_agent_loop_def)
qed

lemma collect_image_then_click:
  "collect_from_stream example_loads image_then_click =
     Inr ([AList.update ''input'' (JObj [(''action'', JStr ''screenshot'')]) (tool_stub ''toolu_1''),
           AList.update ''input'' (JObj [(''action'', JStr ''left_click'')]) (tool_stub ''toolu_2'')],
          [AList.update ''input'' (JObj [(''action'', JStr ''screenshot'')]) (tool_stub ''toolu_1''),
           AList.update ''input'' (JObj [(''action'', JStr ''left_click'')]) (tool_stub ''toolu_2'')])"
  by (simp add: collect_from_stream_def image_then_click_def decoder_init_def on_event_def
      set_input_def tool_stub_def example_loads_def action_json_def quoted_def)

text \<open>
  C3. An iteration decodes a screenshot and then a click. The first tool result carries
  an image, the flag left by the loop is the \<^verbatim>\<open>text\<close> of the click, and the log is not
  truncated: it is longer by the assistant message and the user message, whatever its
  length was.
\<close>

theorem image_then_click_skips_truncation:
  "fst (iterations example_world 1 i st [Stream h image_then_click]) = Return None \<and>
   messages (snd (iterations example_world 1 i st [Stream h image_then_click])) =
     strip_old_images
       (messages st @
        [[(''role'', JStr ''assistant''),
          (''content'',
           JList [JObj (AList.update ''input'' (JObj [(''action'', JStr ''screenshot'')])
                          (tool_stub ''toolu_1'')),
                  JObj (AList.update ''input'' (JObj [(''action'', JStr ''left_click'')])
                          (tool_stub ''toolu_2''))])]]) @
     [user_message
        [tool_result_block (JStr ''toolu_1'')
           (''image'',
            JObj [(''type'', JStr ''base64''), (''media_type'', JStr ''image/png''),
                  (''data'', JStr ''iVBOR'')],
            False),
         tool_result_block (JStr ''toolu_2'') (''text'', JStr [], False)]] \<and>
   length (messages (snd (iterations example_world 1 i st [Stream h image_then_click])))
     = length (messages st) + 2"
  by (simp add: collect_image_then_click example_world_def execute_computer_tool_def
      try_tool_def dict_get_def example_effector_def act_def click_args_def tool_stub_def
      end_of_turn_def strip_old_images_def)

end
